theory Spec2Isabelle
  imports Complex_Main "HOL-Library.Sublist"
begin

section \<open>Strings and global regular-expression replacement\<close>

text \<open>
  A JavaScript string is modelled as a \<open>string\<close>: a list of code units, here the code
  units below 256. The regular expressions of the sources are literal, non-unicode
  patterns; each one is written as a matcher that, at a position of the input, gives the
  length of the match starting there (or \<open>None\<close>). The flag passed to a matcher says
  whether the position is the start of the input (for the anchor \<open>^\<close>).
\<close>

type_synonym matcher = "bool \<Rightarrow> string \<Rightarrow> nat option"

text \<open>The class \<open>\s\<close> on code units below 256: TAB, LF, VT, FF, CR, space, NBSP.\<close>

definition isSpace :: "char \<Rightarrow> bool" where
  "isSpace c = (c \<in> set [CHR 0x09, CHR 0x0A, CHR 0x0B, CHR 0x0C, CHR 0x0D, CHR 0x20, CHR 0xA0])"

text \<open>The class \<open>\d\<close>: the ten ASCII digits.\<close>

definition isDigit :: "char \<Rightarrow> bool" where
  "isDigit c = (c \<in> set ''0123456789'')"

text \<open>
  \<open>String.prototype.replace\<close> with a global pattern and a replacement text without
  substitution of groups: scan from the left; where the pattern matches, emit the
  replacement and continue after the match (an empty match emits the replacement and
  copies one code unit); elsewhere copy one code unit.
\<close>

fun replace_from :: "matcher \<Rightarrow> string \<Rightarrow> bool \<Rightarrow> string \<Rightarrow> string" where
  "replace_from m rep st [] = (case m st [] of None \<Rightarrow> [] | Some _ \<Rightarrow> rep)"
| "replace_from m rep st (c # cs) =
     (case m st (c # cs) of
        None \<Rightarrow> c # replace_from m rep False cs
      | Some 0 \<Rightarrow> rep @ c # replace_from m rep False cs
      | Some (Suc n) \<Rightarrow> rep @ replace_from m rep False (drop n cs))"

definition replaceAll :: "matcher \<Rightarrow> string \<Rightarrow> string \<Rightarrow> string" where
  "replaceAll m rep s = replace_from m rep True s"

section \<open>sanitizeFilename (commands/conversations.ts)\<close>

text \<open>The characters of the class \<open>[<>:"/\\|?*]\<close>.\<close>

definition unsafeChars :: "char list" where
  "unsafeChars = [CHR ''<'', CHR ''>'', CHR '':'', CHR 0x22, CHR ''/'', CHR 0x5C,
                  CHR ''|'', CHR ''?'', CHR ''*'']"

text \<open>\<open>/[<>:"/\\|?*]/g\<close>\<close>

definition re_unsafe :: matcher where
  "re_unsafe st s = (case s of [] \<Rightarrow> None | c # _ \<Rightarrow> if c \<in> set unsafeChars then Some 1 else None)"

text \<open>\<open>/\s+/g\<close>\<close>

definition re_spaces :: matcher where
  "re_spaces st s = (let n = length (takeWhile isSpace s) in if 1 \<le> n then Some n else None)"

text \<open>\<open>/_{2,}/g\<close>\<close>

definition re_underscores2 :: matcher where
  "re_underscores2 st s =
     (let n = length (takeWhile (\<lambda>c. c = CHR ''_'') s) in if 2 \<le> n then Some n else None)"

text \<open>
  \<open>/^_+|_+$/g\<close>: a run of underscores at the start of the input, or a run of underscores
  that reaches the end of the input.
\<close>

definition re_edge_underscores :: matcher where
  "re_edge_underscores st s =
     (let n = length (takeWhile (\<lambda>c. c = CHR ''_'') s)
      in if 1 \<le> n \<and> (st \<or> drop n s = []) then Some n else None)"

definition sanitizeFilename :: "string \<Rightarrow> string" where
  "sanitizeFilename filename =
     replaceAll re_edge_underscores ''''
       (replaceAll re_underscores2 ''_''
         (replaceAll re_spaces ''_''
           (replaceAll re_unsafe ''_'' filename)))"

text \<open>No two underscores side by side, by recursion over the text.\<close>

fun no_double :: "string \<Rightarrow> bool" where
  "no_double (a # b # cs) = (\<not> (a = CHR ''_'' \<and> b = CHR ''_'') \<and> no_double (b # cs))"
| "no_double _ = True"

section \<open>Literal patterns\<close>

text \<open>
  Matching a literal at a position. Under the flag \<open>i\<close> (non-unicode) a lower-case ASCII
  letter of the pattern matches itself and its upper-case form; any other pattern
  character matches itself. The literals of the sources are written in lower case.
\<close>

definition upperOf :: "char \<Rightarrow> char" where
  "upperOf p =
     (case map_of (zip ''abcdefghijklmnopqrstuvwxyz'' ''ABCDEFGHIJKLMNOPQRSTUVWXYZ'') p of
        Some u \<Rightarrow> u
      | None \<Rightarrow> p)"

fun lit_prefix :: "bool \<Rightarrow> string \<Rightarrow> string \<Rightarrow> bool" where
  "lit_prefix i [] s = True"
| "lit_prefix i (p # ps) [] = False"
| "lit_prefix i (p # ps) (c # cs) =
     (if c = p \<or> (i \<and> c = upperOf p) then lit_prefix i ps cs else False)"

text \<open>A literal pattern with the flags \<open>gi\<close>, and one with the flag \<open>g\<close> alone.\<close>

definition lit_ci :: "string \<Rightarrow> matcher" where
  "lit_ci l st s = (if lit_prefix True l s then Some (length l) else None)"

definition lit_cs :: "string \<Rightarrow> matcher" where
  "lit_cs l st s = (if lit_prefix False l s then Some (length l) else None)"

section \<open>Errors\<close>

text \<open>
  The errors the sources throw, by their message: the link from which no identifier could
  be extracted; no tokens found; no refresh token available; a refresh or an exchange the
  token endpoint answered with a status that is not ok (with the text of the response); a
  request that failed; no download link for an attachment (with its file name); a download
  answered with a status that is not ok (file name and status text); a file that could not
  be written.
\<close>

datatype error =
    CouldNotExtractId string
  | NoTokensFound
  | NoRefreshToken
  | RefreshFailed string
  | ExchangeFailed string
  | FetchFailed
  | NoDownloadLink string
  | AttachmentDownloadFailed string string
  | WriteFailed string

section \<open>extractConversationId (api/client.ts)\<close>

text \<open>
  \<open>String.prototype.match\<close> with a pattern without the global flag: the leftmost position
  at which the pattern matches; the matcher gives the text of capture group 1.
\<close>

fun search_from :: "(bool \<Rightarrow> string \<Rightarrow> 'a option) \<Rightarrow> bool \<Rightarrow> string \<Rightarrow> 'a option" where
  "search_from m st [] = m st []"
| "search_from m st (c # cs) =
     (case m st (c # cs) of Some g \<Rightarrow> Some g | None \<Rightarrow> search_from m False cs)"

definition match_first :: "(bool \<Rightarrow> string \<Rightarrow> 'a option) \<Rightarrow> string \<Rightarrow> 'a option" where
  "match_first m s = search_from m True s"

text \<open>A literal followed by \<open>(\d+)\<close>: the group is the longest run of digits, not empty.\<close>

definition digits_after :: "string \<Rightarrow> string \<Rightarrow> string option" where
  "digits_after lit s =
     (if lit_prefix False lit s
      then (let ds = takeWhile isDigit (drop (length lit) s) in if ds \<noteq> [] then Some ds else None)
      else None)"

text \<open>\<open>/conversation\/(\d+)/\<close>\<close>

definition re_conversation :: "bool \<Rightarrow> string \<Rightarrow> string option" where
  "re_conversation st s = digits_after ''conversation/'' s"

text \<open>\<open>/conversations\/(\d+)/\<close>\<close>

definition re_conversations :: "bool \<Rightarrow> string \<Rightarrow> string option" where
  "re_conversations st s = digits_after ''conversations/'' s"

text \<open>\<open>/^(\d+)$/\<close>: only at the start of the input, and the digits reach its end.\<close>

definition re_bare_id :: "bool \<Rightarrow> string \<Rightarrow> string option" where
  "re_bare_id st s =
     (let ds = takeWhile isDigit s
      in if st \<and> ds \<noteq> [] \<and> drop (length ds) s = [] then Some ds else None)"

definition extractConversationId :: "string \<Rightarrow> error + string" where
  "extractConversationId link =
     (case match_first re_conversation link of
        Some g \<Rightarrow> Inr g
      | None \<Rightarrow>
         (case match_first re_conversations link of
            Some g \<Rightarrow> Inr g
          | None \<Rightarrow>
             (case match_first re_bare_id link of
                Some g \<Rightarrow> Inr g
              | None \<Rightarrow> Inl (CouldNotExtractId link))))"

section \<open>cleanHtml (utils/markdown.ts)\<close>

text \<open>\<open>/<br\s*\/?>/gi\<close>\<close>

definition re_br :: matcher where
  "re_br st s =
     (if lit_prefix True ''<br'' s
      then (let r1 = drop 3 s;
                ws = takeWhile isSpace r1;
                r2 = dropWhile isSpace r1;
                slash = (case r2 of [] \<Rightarrow> 0 | c # _ \<Rightarrow> if c = CHR ''/'' then 1 else 0);
                r3 = drop slash r2
            in (case r3 of
                  [] \<Rightarrow> None
                | c # _ \<Rightarrow> if c = CHR ''>'' then Some (3 + length ws + slash + 1) else None))
      else None)"

text \<open>\<open>/<\/?div>/gi\<close>\<close>

definition re_div :: matcher where
  "re_div st s =
     (if lit_prefix True ''</div>'' s then Some 6
      else if lit_prefix True ''<div>'' s then Some 5
      else None)"

text \<open>
  \<open>/<a\s+href="([^"]+)"[^>]*>/gi\<close>. The replacement text of this pattern is \<open>[\<close>, so
  the captured address is dropped here.
\<close>

definition re_anchor_open :: matcher where
  "re_anchor_open st s =
     (if lit_prefix True ''<a'' s
      then (let r1 = drop 2 s;
                ws = takeWhile isSpace r1;
                r2 = dropWhile isSpace r1
            in if ws \<noteq> [] \<and> lit_prefix True (''href='' @ [CHR 0x22]) r2
               then (let r3 = drop 6 r2;
                         url = takeWhile (\<lambda>c. c \<noteq> CHR 0x22) r3;
                         r4 = dropWhile (\<lambda>c. c \<noteq> CHR 0x22) r3
                     in if url \<noteq> [] \<and> r4 \<noteq> []
                        then (let r5 = tl r4;
                                  attrs = takeWhile (\<lambda>c. c \<noteq> CHR ''>'') r5;
                                  r6 = dropWhile (\<lambda>c. c \<noteq> CHR ''>'') r5
                              in if r6 \<noteq> []
                                 then Some (2 + length ws + 6 + length url + 1 + length attrs + 1)
                                 else None)
                        else None)
               else None)
      else None)"

text \<open>\<open>/<[^>]+>/g\<close>\<close>

definition re_any_tag :: matcher where
  "re_any_tag st s =
     (case s of
        [] \<Rightarrow> None
      | c # r1 \<Rightarrow>
          if c = CHR ''<''
          then (let inner = takeWhile (\<lambda>c. c \<noteq> CHR ''>'') r1;
                    r2 = dropWhile (\<lambda>c. c \<noteq> CHR ''>'') r1
                in if inner \<noteq> [] \<and> r2 \<noteq> [] then Some (1 + length inner + 1) else None)
          else None)"

text \<open>\<open>/\n{3,}/g\<close>\<close>

definition re_newlines3 :: matcher where
  "re_newlines3 st s =
     (let n = length (takeWhile (\<lambda>c. c = CHR 0x0A) s) in if 3 \<le> n then Some n else None)"

text \<open>\<open>String.prototype.trim\<close>: white space and line terminators off both ends.\<close>

definition trim :: "string \<Rightarrow> string" where
  "trim s = rev (dropWhile isSpace (rev (dropWhile isSpace s)))"

text \<open>
  The chain of replacements, in the order of the source. The pattern \<open>/<\/a>/gi\<close> has
  no capture group, so in its replacement text \<open>]($1)\<close> the characters \<open>$1\<close> stand for
  themselves (GetSubstitution leaves \<open>$n\<close> alone when the pattern has fewer than
  \<open>n\<close> groups).
\<close>

definition cleanHtml :: "string \<Rightarrow> string" where
  "cleanHtml html =
     (let s = html;
          s = replaceAll re_br ([CHR 0x0A]) s;
          s = replaceAll (lit_ci ''</p>'') ([CHR 0x0A, CHR 0x0A]) s;
          s = replaceAll (lit_ci ''<p>'') '''' s;
          s = replaceAll re_div ([CHR 0x0A]) s;
          s = replaceAll (lit_ci ''<blockquote>'') (''> '') s;
          s = replaceAll (lit_ci ''</blockquote>'') ([CHR 0x0A]) s;
          s = replaceAll (lit_ci ''<strong>'') ''**'' s;
          s = replaceAll (lit_ci ''</strong>'') ''**'' s;
          s = replaceAll (lit_ci ''<b>'') ''**'' s;
          s = replaceAll (lit_ci ''</b>'') ''**'' s;
          s = replaceAll (lit_ci ''<em>'') ''*'' s;
          s = replaceAll (lit_ci ''</em>'') ''*'' s;
          s = replaceAll (lit_ci ''<i>'') ''*'' s;
          s = replaceAll (lit_ci ''</i>'') ''*'' s;
          s = replaceAll (lit_ci ''<code>'') ''`'' s;
          s = replaceAll (lit_ci ''</code>'') ''`'' s;
          s = replaceAll (lit_ci ''<pre>'') (''```'' @ [CHR 0x0A]) s;
          s = replaceAll (lit_ci ''</pre>'') (CHR 0x0A # ''```'') s;
          s = replaceAll re_anchor_open ''['' s;
          s = replaceAll (lit_ci ''</a>'') '']($1)'' s;
          s = replaceAll (lit_ci ''<ul>'') ([CHR 0x0A]) s;
          s = replaceAll (lit_ci ''</ul>'') ([CHR 0x0A]) s;
          s = replaceAll (lit_ci ''<ol>'') ([CHR 0x0A]) s;
          s = replaceAll (lit_ci ''</ol>'') ([CHR 0x0A]) s;
          s = replaceAll (lit_ci ''<li>'') (''- '') s;
          s = replaceAll (lit_ci ''</li>'') ([CHR 0x0A]) s;
          s = replaceAll re_any_tag '''' s;
          s = replaceAll (lit_cs ''&nbsp;'') ('' '') s;
          s = replaceAll (lit_cs ''&lt;'') ''<'' s;
          s = replaceAll (lit_cs ''&gt;'') ''>'' s;
          s = replaceAll (lit_cs ''&amp;'') ''&'' s;
          s = replaceAll (lit_cs ''&quot;'') ([CHR 0x22]) s;
          s = replaceAll (lit_cs ''&#39;'') ([CHR 0x27]) s;
          s = replaceAll re_newlines3 ([CHR 0x0A, CHR 0x0A]) s
      in trim s)"

subsection \<open>What the patterns of extractConversationId look for\<close>

text \<open>
  The link contains the literal followed by a digit; and the link contains the literal
  followed by the identifier \<open>ds\<close> (a whole run of digits), with no occurrence of the
  literal followed by a digit further to the left.
\<close>

definition has_id_after :: "string \<Rightarrow> string \<Rightarrow> bool" where
  "has_id_after lit link = (\<exists>p d r. link = p @ lit @ d # r \<and> isDigit d)"

definition first_id_after :: "string \<Rightarrow> string \<Rightarrow> string \<Rightarrow> bool" where
  "first_id_after lit link ds =
     (\<exists>pre rest. link = pre @ lit @ ds @ rest \<and> ds \<noteq> [] \<and> list_all isDigit ds \<and>
        (rest = [] \<or> \<not> isDigit (hd rest)) \<and> \<not> has_id_after lit (pre @ lit))"

section \<open>Numbers as text\<close>

text \<open>The decimal text of an integer, as a template literal renders a number.\<close>

definition digitChar :: "nat \<Rightarrow> char" where
  "digitChar d = ''0123456789'' ! d"

fun show_nat :: "nat \<Rightarrow> string" where
  "show_nat n = (if n < 10 then [digitChar n] else show_nat (n div 10) @ [digitChar (n mod 10)])"

declare show_nat.simps [simp del]

definition show_int :: "int \<Rightarrow> string" where
  "show_int i = (if i < 0 then CHR ''-'' # show_nat (nat (- i)) else show_nat (nat i))"

text \<open>
  \<open>Number.prototype.toFixed(1)\<close> for \<open>0 \<le> x < 10^21\<close>: the integer \<open>n\<close> with \<open>n / 10\<close>
  nearest to \<open>x\<close> (the larger one of two), its digits padded to two places, and a point
  before the last digit.
\<close>

definition toFixed1 :: "real \<Rightarrow> string" where
  "toFixed1 x =
     (let n = nat \<lfloor>x * 10 + 1 / 2\<rfloor>;
          m = show_nat n;
          m = (if length m \<le> 1 then replicate (2 - length m) (CHR ''0'') @ m else m)
      in take (length m - 1) m @ ''.'' @ drop (length m - 1) m)"

section \<open>formatFileSize (utils/markdown.ts)\<close>

text \<open>
  The size is a number of bytes. Dividing a whole number of bytes by 1024 is exact in
  double precision, so the value of the variable \<open>size\<close> (here \<open>sz\<close>) is the number written here.
\<close>

definition units :: "string list" where
  "units = [''B'', ''KB'', ''MB'', ''GB'']"

function formatFileSize_loop :: "real \<Rightarrow> nat \<Rightarrow> real \<times> nat" where
  "formatFileSize_loop sz unitIndex =
     (if 1024 \<le> sz \<and> unitIndex < length units - 1
      then formatFileSize_loop (sz / 1024) (unitIndex + 1)
      else (sz, unitIndex))"
  by pat_completeness auto
termination
  by (relation "measure (\<lambda>(sz, unitIndex). length units - 1 - unitIndex)") auto

declare formatFileSize_loop.simps [simp del]

definition formatFileSize :: "nat \<Rightarrow> string" where
  "formatFileSize bytes =
     (case formatFileSize_loop (of_nat bytes) 0 of
        (sz, unitIndex) \<Rightarrow> toFixed1 sz @ '' '' @ units ! unitIndex)"

section \<open>Conversations, threads and attachments (api/client.ts)\<close>

text \<open>
  The fields the functions below read. An optional field is an \<open>option\<close>; the wrapper
  \<open>_embedded\<close> holds one list, so it is that list when present. \<open>link_href\<close> is
  \<open>_links?.data?.href\<close>. \<open>createdAt\<close> of a thread is the time value of
  \<open>new Date(thread.createdAt)\<close>, in milliseconds.
\<close>

record Person =
  person_id :: nat
  email :: string
  firstName :: "string option"
  lastName :: "string option"

record Attachment =
  att_id :: nat
  filename :: string
  mimeType :: string
  att_size :: nat
  link_href :: "string option"

record Thread =
  thread_id :: nat
  thread_type :: string
  body :: string
  customer :: "Person option"
  createdBy :: "Person option"
  createdAt :: int
  attachments :: "Attachment list option"
  embedded_attachments :: "Attachment list option"

record Conversation =
  conv_id :: nat
  number :: nat
  subject :: string
  status :: string
  threads :: "Thread list option"
  embedded_threads :: "Thread list option"

text \<open>\<open>conversation._embedded?.threads || conversation.threads || []\<close> (an array is truthy).\<close>

definition conversationThreads :: "Conversation \<Rightarrow> Thread list" where
  "conversationThreads conversation =
     (case embedded_threads conversation of
        Some ts \<Rightarrow> ts
      | None \<Rightarrow> (case threads conversation of Some ts \<Rightarrow> ts | None \<Rightarrow> []))"

text \<open>\<open>thread._embedded?.attachments || thread.attachments || []\<close>\<close>

definition threadAttachments :: "Thread \<Rightarrow> Attachment list" where
  "threadAttachments thread =
     (case embedded_attachments thread of
        Some as \<Rightarrow> as
      | None \<Rightarrow> (case attachments thread of Some as \<Rightarrow> as | None \<Rightarrow> []))"

section \<open>calculateThreadStatistics (utils/markdown.ts)\<close>

record ThreadStatistics =
  stats_totalThreads :: nat
  stats_customerMessages :: nat
  stats_supportReplies :: nat
  stats_internalNotes :: nat
  stats_totalAttachments :: nat
  stats_responseTime :: "string option"

text \<open>The local variables of the loop over the threads.\<close>

record locals =
  customerMessages :: nat
  supportReplies :: nat
  internalNotes :: nat
  totalAttachments :: nat
  firstCustomerMessageTime :: "int option"
  firstSupportReplyTime :: "int option"

definition isNote :: "Thread \<Rightarrow> bool" where
  "isNote thread = (thread_type thread = ''note'')"

definition isCustomerThread :: "Thread \<Rightarrow> bool" where
  "isCustomerThread thread = (thread_type thread = ''customer'' \<or> customer thread \<noteq> None)"

definition stats_step :: "locals \<Rightarrow> Thread \<Rightarrow> locals" where
  "stats_step l thread =
     (let l = l\<lparr>totalAttachments := totalAttachments l + length (threadAttachments thread)\<rparr>
      in if isNote thread then l\<lparr>internalNotes := internalNotes l + 1\<rparr>
         else if isCustomerThread thread
         then (let l = l\<lparr>customerMessages := customerMessages l + 1\<rparr>
               in if firstCustomerMessageTime l = None
                  then l\<lparr>firstCustomerMessageTime := Some (createdAt thread)\<rparr>
                  else l)
         else if thread_type thread = ''reply'' \<or> thread_type thread = ''message''
         then (let l = l\<lparr>supportReplies := supportReplies l + 1\<rparr>
               in if firstSupportReplyTime l = None \<and> firstCustomerMessageTime l \<noteq> None
                  then l\<lparr>firstSupportReplyTime := Some (createdAt thread)\<rparr>
                  else l)
         else l)"

definition stats_init :: locals where
  "stats_init = \<lparr>customerMessages = 0, supportReplies = 0, internalNotes = 0,
     totalAttachments = 0, firstCustomerMessageTime = None, firstSupportReplyTime = None\<rparr>"

text \<open>The remainder operator \<open>%\<close>: the sign of the result is that of the dividend.\<close>

definition js_rem :: "int \<Rightarrow> int \<Rightarrow> int" where
  "js_rem a b = sgn a * (\<bar>a\<bar> mod \<bar>b\<bar>)"

definition plural :: "int \<Rightarrow> string" where
  "plural n = (if n \<noteq> 1 then ''s'' else '''')"

text \<open>
  The text of the response time, from the two time values. \<open>Math.floor (a / b)\<close> for a
  positive \<open>b\<close> is \<open>div\<close>.
\<close>

definition responseTimeText :: "int \<Rightarrow> int \<Rightarrow> string" where
  "responseTimeText customerTime replyTime =
     (let diffMs = replyTime - customerTime;
          diffMins = diffMs div 60000;
          diffHours = diffMins div 60;
          diffDays = diffHours div 24
      in if diffDays > 0
         then show_int diffDays @ '' day'' @ plural diffDays @ '' '' @
              show_int (js_rem diffHours 24) @ '' hour'' @ plural (js_rem diffHours 24)
         else if diffHours > 0
         then show_int diffHours @ '' hour'' @ plural diffHours @ '' '' @
              show_int (js_rem diffMins 60) @ '' minute'' @ plural (js_rem diffMins 60)
         else show_int diffMins @ '' minute'' @ plural diffMins)"

definition calculateThreadStatistics :: "Thread list \<Rightarrow> ThreadStatistics" where
  "calculateThreadStatistics ts =
     (let l = foldl stats_step stats_init ts;
          responseTime =
            (case (firstCustomerMessageTime l, firstSupportReplyTime l) of
               (Some c, Some r) \<Rightarrow> Some (responseTimeText c r)
             | _ \<Rightarrow> None)
      in \<lparr>stats_totalThreads = length ts,
          stats_customerMessages = customerMessages l,
          stats_supportReplies = supportReplies l,
          stats_internalNotes = internalNotes l,
          stats_totalAttachments = totalAttachments l,
          stats_responseTime = responseTime\<rparr>)"

section \<open>conversationToMarkdown: the summary block (utils/markdown.ts)\<close>

text \<open>
  The lines pushed between \<open>## Summary\<close> and the empty line before \<open>## Metadata\<close>. A
  string is truthy when it is not empty.
\<close>

definition summaryLines :: "ThreadStatistics \<Rightarrow> string list" where
  "summaryLines stats =
     [''## Summary'',
      ''- **Total Threads**: '' @ show_nat (stats_totalThreads stats),
      ''- **Customer Messages**: '' @ show_nat (stats_customerMessages stats),
      ''- **Support Replies**: '' @ show_nat (stats_supportReplies stats),
      ''- **Internal Notes**: '' @ show_nat (stats_internalNotes stats)] @
     (if stats_totalAttachments stats > 0
      then [''- **Attachments**: '' @ show_nat (stats_totalAttachments stats)]
      else []) @
     (case stats_responseTime stats of
        None \<Rightarrow> []
      | Some r \<Rightarrow> if r \<noteq> [] then [''- **First Response Time**: '' @ r] else []) @
     ['''']"

definition conversationSummary :: "Conversation \<Rightarrow> string list" where
  "conversationSummary conversation =
     summaryLines (calculateThreadStatistics (conversationThreads conversation))"

section \<open>formatThread: the attachment list (utils/markdown.ts)\<close>




subsection \<open>The file size text in the words of the specification\<close>

text \<open>
  Base-1024 units: bytes below 1024, then KB below \<open>1024\<^sup>2\<close>, MB below \<open>1024\<^sup>3\<close>, GB from
  there on; the value in that unit with one decimal place, i.e. a whole number of tenths,
  rounded to the nearest (a half upwards).
\<close>

definition unitIndex_spec :: "nat \<Rightarrow> nat" where
  "unitIndex_spec bytes =
     (if bytes < 1024 then 0 else if bytes < 1024 ^ 2 then 1 else if bytes < 1024 ^ 3 then 2 else 3)"

definition tenths_spec :: "nat \<Rightarrow> nat" where
  "tenths_spec bytes =
     (20 * bytes + 1024 ^ unitIndex_spec bytes) div (2 * 1024 ^ unitIndex_spec bytes)"

definition formatFileSize_spec :: "nat \<Rightarrow> string" where
  "formatFileSize_spec bytes =
     show_nat (tenths_spec bytes div 10) @ ''.'' @ [digitChar (tenths_spec bytes mod 10)] @ '' '' @
     [''B'', ''KB'', ''MB'', ''GB''] ! unitIndex_spec bytes"

subsection \<open>How the statistics count a thread, and the first response\<close>

text \<open>
  The branches of the loop: a thread counted as a customer message, and a thread counted
  as a support reply.
\<close>

definition countsAsCustomer :: "Thread \<Rightarrow> bool" where
  "countsAsCustomer t = (\<not> isNote t \<and> isCustomerThread t)"

definition countsAsReply :: "Thread \<Rightarrow> bool" where
  "countsAsReply t =
     (\<not> isNote t \<and> \<not> isCustomerThread t \<and> (thread_type t = ''reply'' \<or> thread_type t = ''message''))"

text \<open>
  In the order of the list: the first thread counted as a customer message and the first
  thread counted as a reply after it (their time values).
\<close>

definition first_response :: "Thread list \<Rightarrow> (int \<times> int) option" where
  "first_response ts =
     (case dropWhile (\<lambda>t. \<not> countsAsCustomer t) ts of
        [] \<Rightarrow> None
      | c # rest \<Rightarrow>
          (case find countsAsReply rest of
             None \<Rightarrow> None
           | Some r \<Rightarrow> Some (createdAt c, createdAt r)))"

text \<open>
  By the time values: some thread counted as a customer message is earlier than some
  thread counted as a reply.
\<close>

definition chronologically_preceded :: "Thread list \<Rightarrow> bool" where
  "chronologically_preceded ts =
     list_ex (\<lambda>c. countsAsCustomer c \<and> list_ex (\<lambda>r. countsAsReply r \<and> createdAt c < createdAt r) ts) ts"

text \<open>
  The latency of a number of whole minutes in the words of the specification: days and
  hours from one day on, hours and minutes from one hour on, minutes below.
\<close>

definition plural_nat :: "nat \<Rightarrow> string" where
  "plural_nat n = (if n = 1 then '''' else ''s'')"

definition latency_spec :: "nat \<Rightarrow> string" where
  "latency_spec m =
     (if 1440 \<le> m
      then show_nat (m div 1440) @ '' day'' @ plural_nat (m div 1440) @ '' '' @
           show_nat (m div 60 mod 24) @ '' hour'' @ plural_nat (m div 60 mod 24)
      else if 60 \<le> m
      then show_nat (m div 60) @ '' hour'' @ plural_nat (m div 60) @ '' '' @
           show_nat (m mod 60) @ '' minute'' @ plural_nat (m mod 60)
      else show_nat m @ '' minute'' @ plural_nat m)"

definition isResponseTimeLine :: "string \<Rightarrow> bool" where
  "isResponseTimeLine line = prefix ''- **First Response Time**: '' line"

subsection \<open>Example data\<close>

definition ex_attachment :: Attachment where
  "ex_attachment = \<lparr>att_id = 7, filename = ''report.pdf'', mimeType = ''application/pdf'',
     att_size = 1536, link_href = None\<rparr>"

definition ex_customer_thread :: Thread where
  "ex_customer_thread = \<lparr>thread_id = 1, thread_type = ''customer'', body = ''Hello'',
     customer = Some \<lparr>person_id = 5, email = ''c@example.com'', firstName = None, lastName = None\<rparr>,
     createdBy = None, createdAt = 100000,
     attachments = Some [ex_attachment], embedded_attachments = Some []\<rparr>"

definition ex_reply_thread :: Thread where
  "ex_reply_thread = \<lparr>thread_id = 2, thread_type = ''reply'', body = ''Hi'',
     customer = None, createdBy = None, createdAt = 40000,
     attachments = None, embedded_attachments = None\<rparr>"

definition ex_conversation :: Conversation where
  "ex_conversation = \<lparr>conv_id = 9, number = 3, subject = ''Help'', status = ''active'',
     threads = Some [ex_customer_thread, ex_reply_thread], embedded_threads = Some []\<rparr>"

section \<open>The token store and the OAuth manager (auth/oauth.ts)\<close>

text \<open>
  A parsed JSON value. The numbers of a token record are whole numbers (seconds, and
  milliseconds since the epoch), on which the arithmetic of the source is exact.
\<close>

datatype json =
    JNull
  | JBool bool
  | JNum int
  | JStr string
  | JArr "json list"
  | JObj "(string \<times> json) list"

record TokenData =
  access_token :: string
  refresh_token :: string
  token_type :: string
  expires_in :: int
  expires_at :: int

text \<open>\<open>z.string()\<close> and \<open>z.number()\<close> on a field of an object (absent: \<open>None\<close>).\<close>

definition z_string :: "json option \<Rightarrow> string option" where
  "z_string v = (case v of Some (JStr s) \<Rightarrow> Some s | _ \<Rightarrow> None)"

definition z_number :: "json option \<Rightarrow> int option" where
  "z_number v = (case v of Some (JNum n) \<Rightarrow> Some n | _ \<Rightarrow> None)"

text \<open>
  \<open>TokenSchema.parse\<close>: the value must be an object whose five fields have the declared
  types; other fields are dropped. A failed parse (it throws) is \<open>None\<close>.
\<close>

definition TokenSchema_parse :: "json \<Rightarrow> TokenData option" where
  "TokenSchema_parse data =
     (case data of
        JObj kvs \<Rightarrow>
          (case z_string (map_of kvs ''access_token'') of
             None \<Rightarrow> None
           | Some a \<Rightarrow>
          (case z_string (map_of kvs ''refresh_token'') of
             None \<Rightarrow> None
           | Some r \<Rightarrow>
          (case z_string (map_of kvs ''token_type'') of
             None \<Rightarrow> None
           | Some t \<Rightarrow>
          (case z_number (map_of kvs ''expires_in'') of
             None \<Rightarrow> None
           | Some ei \<Rightarrow>
          (case z_number (map_of kvs ''expires_at'') of
             None \<Rightarrow> None
           | Some ea \<Rightarrow>
               Some \<lparr>access_token = a, refresh_token = r, token_type = t,
                     expires_in = ei, expires_at = ea\<rparr>)))))
      | _ \<Rightarrow> None)"

text \<open>
  The token file: it does not exist; it cannot be read; its content is not JSON; or its
  content parses to a JSON value.
\<close>

datatype token_file = Missing | Unreadable | Malformed | Holds json

text \<open>
  The answer of the token endpoint to a request: the request fails; a status that is not
  ok, with the text of the response; or an ok status with the token data of the response.
\<close>

record token_grant =
  grant_access_token :: string
  grant_refresh_token :: string
  grant_token_type :: string
  grant_expires_in :: int

datatype token_reply = Unreachable | Rejected string | Accepted token_grant

type_synonym form = "(string \<times> string) list"

record config =
  appId :: string
  appSecret :: string
  redirectUri :: string

text \<open>
  What the manager acts on: the token file, the clock (\<open>clock w n\<close> is what the \<open>n\<close>-th
  reading of \<open>Date.now()\<close> gives), the token endpoint, and the requests sent to it so far.
  Writing the token file is taken to succeed.
\<close>

record world =
  token_file :: token_file
  clock :: "nat \<Rightarrow> int"
  ticks :: nat
  endpoint :: "form \<Rightarrow> token_reply"
  posts :: "form list"

definition Date_now :: "world \<Rightarrow> int \<times> world" where
  "Date_now w = (clock w (ticks w), w\<lparr>ticks := Suc (ticks w)\<rparr>)"

definition post_token :: "world \<Rightarrow> form \<Rightarrow> token_reply \<times> world" where
  "post_token w params = (endpoint w params, w\<lparr>posts := posts w @ [params]\<rparr>)"

definition loadTokens :: "world \<Rightarrow> TokenData option" where
  "loadTokens w =
     (case token_file w of
        Missing \<Rightarrow> None
      | Unreadable \<Rightarrow> None
      | Malformed \<Rightarrow> None
      | Holds data \<Rightarrow> TokenSchema_parse data)"

text \<open>\<open>JSON.stringify\<close> of a token record, read back by \<open>JSON.parse\<close>.\<close>

definition json_of_tokens :: "TokenData \<Rightarrow> json" where
  "json_of_tokens tokens =
     JObj [(''access_token'', JStr (access_token tokens)),
           (''refresh_token'', JStr (refresh_token tokens)),
           (''token_type'', JStr (token_type tokens)),
           (''expires_in'', JNum (expires_in tokens)),
           (''expires_at'', JNum (expires_at tokens))]"

definition saveTokens :: "world \<Rightarrow> TokenData \<Rightarrow> world" where
  "saveTokens w tokens = w\<lparr>token_file := Holds (json_of_tokens tokens)\<rparr>"

text \<open>\<open>{ ...data, expires_at: Date.now() + (data.expires_in * 1000) }\<close>\<close>

definition tokenData_of :: "token_grant \<Rightarrow> int \<Rightarrow> TokenData" where
  "tokenData_of data now =
     \<lparr>access_token = grant_access_token data, refresh_token = grant_refresh_token data,
      token_type = grant_token_type data, expires_in = grant_expires_in data,
      expires_at = now + grant_expires_in data * 1000\<rparr>"

definition exchange_form :: "config \<Rightarrow> string \<Rightarrow> form" where
  "exchange_form cfg code =
     [(''grant_type'', ''authorization_code''), (''client_id'', appId cfg),
      (''client_secret'', appSecret cfg), (''code'', code), (''redirect_uri'', redirectUri cfg)]"

definition refresh_form :: "config \<Rightarrow> TokenData \<Rightarrow> form" where
  "refresh_form cfg tokens =
     [(''grant_type'', ''refresh_token''), (''client_id'', appId cfg),
      (''client_secret'', appSecret cfg), (''refresh_token'', refresh_token tokens)]"

definition exchangeCodeForToken :: "config \<Rightarrow> world \<Rightarrow> string \<Rightarrow> (error + TokenData) \<times> world" where
  "exchangeCodeForToken cfg w code =
     (case post_token w (exchange_form cfg code) of
        (Unreachable, w1) \<Rightarrow> (Inl FetchFailed, w1)
      | (Rejected msg, w1) \<Rightarrow> (Inl (ExchangeFailed msg), w1)
      | (Accepted data, w1) \<Rightarrow>
          (case Date_now w1 of
             (now, w2) \<Rightarrow>
               (let tokenData = tokenData_of data now
                in (Inr tokenData, saveTokens w2 tokenData))))"

definition refreshAccessToken :: "config \<Rightarrow> world \<Rightarrow> (error + TokenData) \<times> world" where
  "refreshAccessToken cfg w =
     (case loadTokens w of
        None \<Rightarrow> (Inl NoRefreshToken, w)
      | Some tokens \<Rightarrow>
          if refresh_token tokens = [] then (Inl NoRefreshToken, w)
          else
            (case post_token w (refresh_form cfg tokens) of
               (Unreachable, w1) \<Rightarrow> (Inl FetchFailed, w1)
             | (Rejected msg, w1) \<Rightarrow> (Inl (RefreshFailed msg), w1)
             | (Accepted data, w1) \<Rightarrow>
                 (case Date_now w1 of
                    (now, w2) \<Rightarrow>
                      (let tokenData = tokenData_of data now
                       in (Inr tokenData, saveTokens w2 tokenData)))))"

definition getValidToken :: "config \<Rightarrow> world \<Rightarrow> (error + string) \<times> world" where
  "getValidToken cfg w =
     (case loadTokens w of
        None \<Rightarrow> (Inl NoTokensFound, w)
      | Some tokens \<Rightarrow>
          (case Date_now w of
             (now, w1) \<Rightarrow>
               if expires_at tokens - 60000 \<le> now
               then (case refreshAccessToken cfg w1 of
                       (Inl e, w2) \<Rightarrow> (Inl e, w2)
                     | (Inr refreshed, w2) \<Rightarrow> (Inr (access_token refreshed), w2))
               else (Inr (access_token tokens), w1)))"

subsection \<open>Example worlds\<close>

definition tokenFields :: "string list" where
  "tokenFields = [''access_token'', ''refresh_token'', ''token_type'', ''expires_in'', ''expires_at'']"

definition ex_config :: config where
  "ex_config = \<lparr>appId = ''app'', appSecret = ''secret'', redirectUri = ''http://localhost:3698/auth''\<rparr>"

definition ex_tokens :: TokenData where
  "ex_tokens = \<lparr>access_token = ''old-access'', refresh_token = ''old-refresh'',
     token_type = ''bearer'', expires_in = 7200, expires_at = 5000000\<rparr>"

definition ex_grant :: token_grant where
  "ex_grant = \<lparr>grant_access_token = ''new-access'', grant_refresh_token = ''new-refresh'',
     grant_token_type = ''bearer'', grant_expires_in = 7200\<rparr>"

text \<open>
  The clock reads 4950000 and then 4950300: the stored record expires within the margin
  of 60000 ms. The endpoint accepts every request, or rejects every request.
\<close>

definition ex_world :: "token_file \<Rightarrow> token_reply \<Rightarrow> world" where
  "ex_world file reply =
     \<lparr>token_file = file, clock = (\<lambda>n. 4950000 + 300 * int n), ticks = 0,
      endpoint = (\<lambda>params. reply), posts = []\<rparr>"

section \<open>downloadAttachment (api/client.ts)\<close>




section \<open>downloadConversation: attachments, transcript, metadata (commands/conversations.ts)\<close>











subsection \<open>The attempts of a run, one by one\<close>






subsection \<open>Example run\<close>






section \<open>Facts about replacement and literal matching\<close>

lemma set_replace_from: "set (replace_from m rep st s) \<subseteq> set s \<union> set rep"
proof (induction m rep st s rule: replace_from.induct)
  case (1 m rep st)
  then show ?case by (auto split: option.splits)
next
  case (2 m rep st c cs)
  show ?case
  proof (cases "m st (c # cs)")
    case None
    with 2 show ?thesis by auto
  next
    case (Some k)
    show ?thesis
    proof (cases k)
      case 0
      with Some 2 show ?thesis by auto
    next
      case (Suc n)
      with Some 2 have "set (replace_from m rep False (drop n cs)) \<subseteq> set (drop n cs) \<union> set rep"
        by simp
      moreover have "set (drop n cs) \<subseteq> set cs" by (rule set_drop_subset)
      ultimately show ?thesis using Some Suc by auto
    qed
  qed
qed

lemma upperOf_lits:
  "upperOf (CHR ''a'') = CHR ''A''" "upperOf (CHR ''b'') = CHR ''B''" "upperOf (CHR ''c'') = CHR ''C''"
  "upperOf (CHR ''d'') = CHR ''D''" "upperOf (CHR ''e'') = CHR ''E''" "upperOf (CHR ''f'') = CHR ''F''"
  "upperOf (CHR ''g'') = CHR ''G''" "upperOf (CHR ''h'') = CHR ''H''" "upperOf (CHR ''i'') = CHR ''I''"
  "upperOf (CHR ''k'') = CHR ''K''" "upperOf (CHR ''l'') = CHR ''L''" "upperOf (CHR ''m'') = CHR ''M''"
  "upperOf (CHR ''n'') = CHR ''N''" "upperOf (CHR ''o'') = CHR ''O''" "upperOf (CHR ''p'') = CHR ''P''"
  "upperOf (CHR ''q'') = CHR ''Q''" "upperOf (CHR ''r'') = CHR ''R''" "upperOf (CHR ''s'') = CHR ''S''"
  "upperOf (CHR ''t'') = CHR ''T''" "upperOf (CHR ''u'') = CHR ''U''" "upperOf (CHR ''v'') = CHR ''V''"
  "upperOf (CHR ''<'') = CHR ''<''" "upperOf (CHR ''>'') = CHR ''>''" "upperOf (CHR ''/'') = CHR ''/''"
  "upperOf (CHR ''='') = CHR ''=''" "upperOf (CHR 0x22) = CHR 0x22"
  by (simp_all add: upperOf_def)

lemma lit_prefix_is_prefix: "lit_prefix False l s = prefix l s"
proof (induction l arbitrary: s)
  case Nil
  then show ?case by simp
next
  case (Cons p ps)
  then show ?case by (cases s) auto
qed

lemma show_nat_small: "n < 10 \<Longrightarrow> show_nat n = [digitChar n]"
  by (simp add: show_nat.simps)

lemma show_nat_big: "10 \<le> n \<Longrightarrow> show_nat n = show_nat (n div 10) @ [digitChar (n mod 10)]"
  by (subst show_nat.simps) simp

lemma show_nat_nonempty: "show_nat n \<noteq> []"
  by (subst show_nat.simps) simp

lemmas show_ev = show_nat_small show_nat_big digitChar_def show_int_def

section \<open>cleanHtml: anchors\<close>

lemmas clean_ev = cleanHtml_def replaceAll_def trim_def isSpace_def lit_ci_def lit_cs_def
  re_br_def re_div_def re_anchor_open_def re_any_tag_def re_newlines3_def upperOf_lits

lemma cleanHtml_bold_example: "cleanHtml ''<p>Hello <strong>world</strong></p>'' = ''Hello **world**''"
  by (simp add: clean_ev)

text \<open>
  C1. For an HTML fragment with an anchor \<open><a href="URL">text</a>\<close>, cleanHtml is meant to
  give the Markdown link \<open>[text](URL)\<close>. At the anchor with the address
  \<open>https://example.com\<close> and the text \<open>link\<close> the code gives \<open>[link]($1)\<close>: the address is
  lost, and the characters \<open>$1\<close> of the replacement text remain.
\<close>

theorem cleanHtml_anchor_loses_href:
  "cleanHtml (''<a href='' @ [CHR 0x22] @ ''https://example.com'' @ [CHR 0x22] @ ''>link</a>'') =
     ''[link]($1)''"
  by (simp add: clean_ev)

section \<open>Threads of a conversation, attachments of a thread\<close>

text \<open>
  C2 as stated fails: with both fields present the accessors do not use the direct field.
  Here the direct field holds two threads (one attachment) and the embedded one is an empty
  list, and the accessor gives the empty list.
\<close>

theorem accessors_direct_not_preferred:
  "threads ex_conversation = Some [ex_customer_thread, ex_reply_thread] \<and>
   embedded_threads ex_conversation = Some [] \<and>
   conversationThreads ex_conversation = [] \<and>
   attachments ex_customer_thread = Some [ex_attachment] \<and>
   embedded_attachments ex_customer_thread = Some [] \<and>
   threadAttachments ex_customer_thread = []"
  by (simp add: conversationThreads_def threadAttachments_def ex_conversation_def
      ex_customer_thread_def)

text \<open>
  C2, amended. For every conversation (and likewise every thread), the accessor of its
  threads (attachments) returns the embedded-resource field when it is present, falls back to
  the direct field otherwise, and gives the empty sequence when both are absent; when both
  fields are present, the embedded one is used.
\<close>

theorem accessors_prefer_embedded:
  "(embedded_threads c = Some ts \<longrightarrow> conversationThreads c = ts) \<and>
   (embedded_threads c = None \<and> threads c = Some ts \<longrightarrow> conversationThreads c = ts) \<and>
   (embedded_threads c = None \<and> threads c = None \<longrightarrow> conversationThreads c = []) \<and>
   (embedded_attachments t = Some as \<longrightarrow> threadAttachments t = as) \<and>
   (embedded_attachments t = None \<and> attachments t = Some as \<longrightarrow> threadAttachments t = as) \<and>
   (embedded_attachments t = None \<and> attachments t = None \<longrightarrow> threadAttachments t = [])"
  by (simp add: conversationThreads_def threadAttachments_def)

theorem accessors_prefer_embedded_witness:
  "conversationThreads ex_conversation = [] \<and>
   conversationThreads (ex_conversation\<lparr>embedded_threads := None\<rparr>) =
     [ex_customer_thread, ex_reply_thread] \<and>
   conversationThreads (ex_conversation\<lparr>embedded_threads := None, threads := None\<rparr>) = [] \<and>
   threadAttachments ex_customer_thread = [] \<and>
   threadAttachments (ex_customer_thread\<lparr>embedded_attachments := None\<rparr>) = [ex_attachment] \<and>
   threadAttachments ex_reply_thread = []"
proof -
  have A: "conversationThreads ex_conversation = []"
    using accessors_prefer_embedded [where c = ex_conversation and ts = "[]"]
    by (simp add: ex_conversation_def)
  have B: "conversationThreads (ex_conversation\<lparr>embedded_threads := None\<rparr>) =
      [ex_customer_thread, ex_reply_thread]"
    using accessors_prefer_embedded [where c = "ex_conversation\<lparr>embedded_threads := None\<rparr>"
        and ts = "[ex_customer_thread, ex_reply_thread]"]
    by (simp add: ex_conversation_def)
  have C: "conversationThreads (ex_conversation\<lparr>embedded_threads := None, threads := None\<rparr>) = []"
    using accessors_prefer_embedded
      [where c = "ex_conversation\<lparr>embedded_threads := None, threads := None\<rparr>"]
    by (simp add: ex_conversation_def)
  have D: "threadAttachments ex_customer_thread = []"
    using accessors_prefer_embedded [where t = ex_customer_thread and as = "[]"]
    by (simp add: ex_customer_thread_def)
  have E: "threadAttachments (ex_customer_thread\<lparr>embedded_attachments := None\<rparr>) = [ex_attachment]"
    using accessors_prefer_embedded
      [where t = "ex_customer_thread\<lparr>embedded_attachments := None\<rparr>" and as = "[ex_attachment]"]
    by (simp add: ex_customer_thread_def)
  have F: "threadAttachments ex_reply_thread = []"
    using accessors_prefer_embedded [where t = ex_reply_thread]
    by (simp add: ex_reply_thread_def)
  from A B C D E F show ?thesis by blast
qed

section \<open>calculateThreadStatistics: the first response\<close>


lemma step_fields:
  "firstCustomerMessageTime (stats_step l t) =
     (if countsAsCustomer t \<and> firstCustomerMessageTime l = None then Some (createdAt t)
      else firstCustomerMessageTime l)"
  "firstSupportReplyTime (stats_step l t) =
     (if countsAsReply t \<and> firstSupportReplyTime l = None \<and> firstCustomerMessageTime l \<noteq> None
      then Some (createdAt t) else firstSupportReplyTime l)"
  by (auto simp: stats_step_def Let_def countsAsCustomer_def countsAsReply_def)

lemma fold_both:
  "firstCustomerMessageTime l = Some c \<Longrightarrow> firstSupportReplyTime l = Some r \<Longrightarrow>
   firstCustomerMessageTime (foldl stats_step l ts) = Some c \<and>
   firstSupportReplyTime (foldl stats_step l ts) = Some r"
  by (induction ts arbitrary: l) (simp_all add: step_fields)

lemma fold_customer:
  "firstCustomerMessageTime l = Some c \<Longrightarrow> firstSupportReplyTime l = None \<Longrightarrow>
   firstCustomerMessageTime (foldl stats_step l ts) = Some c \<and>
   firstSupportReplyTime (foldl stats_step l ts) = map_option createdAt (find countsAsReply ts)"
proof (induction ts arbitrary: l)
  case Nil
  then show ?case by simp
next
  case (Cons t ts)
  show ?case
  proof (cases "countsAsReply t")
    case True
    with Cons.prems have "firstCustomerMessageTime (stats_step l t) = Some c"
      "firstSupportReplyTime (stats_step l t) = Some (createdAt t)"
      by (simp_all add: step_fields)
    from fold_both [OF this] True show ?thesis by simp
  next
    case False
    with Cons.prems have "firstCustomerMessageTime (stats_step l t) = Some c"
      "firstSupportReplyTime (stats_step l t) = None"
      by (simp_all add: step_fields)
    from Cons.IH [OF this] False show ?thesis by simp
  qed
qed

lemma fold_none:
  "firstCustomerMessageTime l = None \<Longrightarrow> firstSupportReplyTime l = None \<Longrightarrow>
   (case dropWhile (\<lambda>t. \<not> countsAsCustomer t) ts of
      [] \<Rightarrow> firstCustomerMessageTime (foldl stats_step l ts) = None \<and>
            firstSupportReplyTime (foldl stats_step l ts) = None
    | c # rest \<Rightarrow> firstCustomerMessageTime (foldl stats_step l ts) = Some (createdAt c) \<and>
            firstSupportReplyTime (foldl stats_step l ts) = map_option createdAt (find countsAsReply rest))"
proof (induction ts arbitrary: l)
  case Nil
  then show ?case by simp
next
  case (Cons t ts)
  show ?case
  proof (cases "countsAsCustomer t")
    case True
    with Cons.prems have "firstCustomerMessageTime (stats_step l t) = Some (createdAt t)"
      "firstSupportReplyTime (stats_step l t) = None"
      by (simp_all add: step_fields)
    from fold_customer [OF this] True show ?thesis by simp
  next
    case False
    with Cons.prems have "firstCustomerMessageTime (stats_step l t) = None"
      "firstSupportReplyTime (stats_step l t) = None"
      by (simp_all add: step_fields)
    note ih = Cons.IH [OF this]
    have e1: "dropWhile (\<lambda>t. \<not> countsAsCustomer t) (t # ts) =
        dropWhile (\<lambda>t. \<not> countsAsCustomer t) ts" using False by simp
    have e2: "foldl stats_step l (t # ts) = foldl stats_step (stats_step l t) ts" by simp
    show ?thesis unfolding e1 e2 by (rule ih)
  qed
qed

lemma responseTime_first:
  "stats_responseTime (calculateThreadStatistics ts) =
     map_option (\<lambda>(c, r). responseTimeText c r) (first_response ts)"
proof -
  have "firstCustomerMessageTime stats_init = None" "firstSupportReplyTime stats_init = None"
    by (simp_all add: stats_init_def)
  note f = fold_none [OF this, of ts]
  show ?thesis
  proof (cases "dropWhile (\<lambda>t. \<not> countsAsCustomer t) ts")
    case Nil
    with f show ?thesis
      by (simp add: calculateThreadStatistics_def first_response_def Let_def
          del: dropWhile_eq_Nil_conv)
  next
    case (Cons c rest)
    with f show ?thesis
      by (simp add: calculateThreadStatistics_def first_response_def Let_def
          del: dropWhile_eq_Nil_conv split: option.splits)
  qed
qed

lemma responseTimeText_nonempty: "responseTimeText c r \<noteq> []"
proof -
  have g: "x \<noteq> [] \<Longrightarrow> y \<noteq> [] \<Longrightarrow> z \<noteq> [] \<Longrightarrow> (if a then x else if b then y else z) \<noteq> []"
    for a b and x y z :: string by simp
  show ?thesis unfolding responseTimeText_def Let_def by (rule g) simp_all
qed

lemma summary_entry:
  "filter isResponseTimeLine (summaryLines (calculateThreadStatistics ts)) =
     (case first_response ts of
        None \<Rightarrow> []
      | Some (c, r) \<Rightarrow> [''- **First Response Time**: '' @ responseTimeText c r])"
  by (auto simp: summaryLines_def isResponseTimeLine_def responseTime_first
      responseTimeText_nonempty split: option.splits)

lemma first_response_order:
  "first_response ts \<noteq> None \<longleftrightarrow>
     (\<exists>pre c mid r post. ts = pre @ c # mid @ r # post \<and> countsAsCustomer c \<and> countsAsReply r)"
proof
  assume "first_response ts \<noteq> None"
  then obtain c rest r where d: "dropWhile (\<lambda>t. \<not> countsAsCustomer t) ts = c # rest"
    and f: "find countsAsReply rest = Some r"
    by (auto simp: first_response_def split: list.splits option.splits)
  from d have c: "countsAsCustomer c" using hd_dropWhile [of "\<lambda>t. \<not> countsAsCustomer t" ts] by simp
  from f have "r \<in> set rest" "countsAsReply r" by (auto simp: find_Some_iff)
  then obtain mid post where "rest = mid @ r # post" by (auto dest: split_list)
  with d have "ts = takeWhile (\<lambda>t. \<not> countsAsCustomer t) ts @ c # mid @ r # post"
    by (metis takeWhile_dropWhile_id)
  with c \<open>countsAsReply r\<close> show "\<exists>pre c mid r post. ts = pre @ c # mid @ r # post \<and>
      countsAsCustomer c \<and> countsAsReply r" by blast
next
  assume "\<exists>pre c mid r post. ts = pre @ c # mid @ r # post \<and> countsAsCustomer c \<and> countsAsReply r"
  then obtain pre c mid r post where ts: "ts = pre @ c # mid @ r # post"
    and c: "countsAsCustomer c" and r: "countsAsReply r" by blast
  let ?P = "\<lambda>t. \<not> countsAsCustomer t"
  have "\<exists>c' rest. dropWhile ?P ts = c' # rest \<and> r \<in> set rest"
  proof (cases "\<forall>x\<in>set pre. ?P x")
    case True
    then have "dropWhile ?P (pre @ c # mid @ r # post) = dropWhile ?P (c # mid @ r # post)"
      by (intro dropWhile_append2) blast
    then have "dropWhile ?P ts = c # mid @ r # post" using c ts by simp
    then show ?thesis by simp
  next
    case False
    then obtain x where x: "x \<in> set pre" "\<not> ?P x" by blast
    then have "dropWhile ?P pre \<noteq> []" by auto
    then obtain c' rest' where cr: "dropWhile ?P pre = c' # rest'" by (cases "dropWhile ?P pre") auto
    from x have "dropWhile ?P (pre @ c # mid @ r # post) = dropWhile ?P pre @ c # mid @ r # post"
      by (rule dropWhile_append1)
    with cr ts have "dropWhile ?P ts = c' # rest' @ c # mid @ r # post" by simp
    then show ?thesis by simp
  qed
  then obtain c' rest where d: "dropWhile ?P ts = c' # rest" and m: "r \<in> set rest" by blast
  from m r have "find countsAsReply rest \<noteq> None" by (auto simp: find_None_iff)
  with d show "first_response ts \<noteq> None" by (auto simp: first_response_def)
qed


lemma js_rem_nat: "0 < k \<Longrightarrow> js_rem (int n) (int k) = int (n mod k)"
  by (cases "n = 0") (simp_all add: js_rem_def zmod_int)

lemma show_int_nat: "show_int (int n) = show_nat n"
  by (simp add: show_int_def)

lemma plural_nat_int: "plural (int n) = plural_nat n"
  by (simp add: plural_def plural_nat_def)

lemma responseTimeText_latency:
  assumes "0 \<le> d"
  shows "responseTimeText t (t + d) = latency_spec (nat (d div 60000))"
proof -
  define m where "m = nat (d div 60000)"
  have "0 \<le> d div 60000" using assms by (simp add: pos_imp_zdiv_nonneg_iff)
  then have M: "d div 60000 = int m" by (simp add: m_def)
  have e1: "int m div 60 = int (m div 60)" by (simp add: zdiv_int)
  have e2: "int (m div 60) div 24 = int (m div 1440)" by (simp add: zdiv_int div_mult2_eq)
  have e3: "js_rem (int (m div 60)) 24 = int (m div 60 mod 24)"
    using js_rem_nat [of 24 "m div 60"] by simp
  have e4: "js_rem (int m) 60 = int (m mod 60)"
    using js_rem_nat [of 60 m] by simp
  have c1: "(0 < int (m div 1440)) = (1440 \<le> m)" by (simp add: div_greater_zero_iff)
  have c2: "(0 < int (m div 60)) = (60 \<le> m)" by (simp add: div_greater_zero_iff)
  have d: "t + d - t = d" by simp
  have "responseTimeText t (t + d) =
      (if 1440 \<le> m
       then show_nat (m div 1440) @ '' day'' @ plural_nat (m div 1440) @ '' '' @
            show_nat (m div 60 mod 24) @ '' hour'' @ plural_nat (m div 60 mod 24)
       else if 60 \<le> m
       then show_nat (m div 60) @ '' hour'' @ plural_nat (m div 60) @ '' '' @
            show_nat (m mod 60) @ '' minute'' @ plural_nat (m mod 60)
       else show_nat m @ '' minute'' @ plural_nat m)"
    unfolding responseTimeText_def Let_def d M e1 e2 e3 e4 show_int_nat plural_nat_int c1 c2
    by (rule refl)
  then show ?thesis unfolding latency_spec_def m_def by simp
qed

lemma ex_first_response: "first_response [ex_customer_thread, ex_reply_thread] = Some (100000, 40000)"
  by (simp add: first_response_def countsAsCustomer_def countsAsReply_def isNote_def
      isCustomerThread_def ex_customer_thread_def ex_reply_thread_def)

lemma ex_responseTimeText: "responseTimeText 100000 40000 = ''-1 minutes''"
  by (simp add: responseTimeText_def plural_def js_rem_def show_ev)

text \<open>
  C4 as stated fails: with a customer thread listed first whose time value is later than
  that of the reply listed after it, the summary has a first-response entry although no
  customer thread precedes a reply thread by time.
\<close>

theorem first_response_not_chronological:
  "stats_responseTime (calculateThreadStatistics [ex_customer_thread, ex_reply_thread]) =
     Some ''-1 minutes'' \<and>
   filter isResponseTimeLine
     (summaryLines (calculateThreadStatistics [ex_customer_thread, ex_reply_thread])) =
     [''- **First Response Time**: -1 minutes''] \<and>
   \<not> chronologically_preceded [ex_customer_thread, ex_reply_thread]"
proof -
  have "stats_responseTime (calculateThreadStatistics [ex_customer_thread, ex_reply_thread]) =
      Some ''-1 minutes''"
    by (simp add: responseTime_first ex_first_response ex_responseTimeText)
  moreover have "filter isResponseTimeLine
     (summaryLines (calculateThreadStatistics [ex_customer_thread, ex_reply_thread])) =
     [''- **First Response Time**: -1 minutes'']"
    by (simp add: summary_entry ex_first_response ex_responseTimeText)
  moreover have "\<not> chronologically_preceded [ex_customer_thread, ex_reply_thread]"
    by (simp add: chronologically_preceded_def countsAsCustomer_def countsAsReply_def isNote_def
        isCustomerThread_def ex_customer_thread_def ex_reply_thread_def)
  ultimately show ?thesis by blast
qed

text \<open>
  C4, amended. The summary block has a first-response entry exactly when, in the order in
  which the threads are listed, a thread counted as a customer message comes before a
  thread counted as a support reply; the entry shows the time from the first such customer
  thread to the first reply listed after it; and a difference that is not negative is
  formatted as days and hours, or hours and minutes, or minutes, by the coarsest unit that
  is not zero.
\<close>

theorem first_response_entry:
  "filter isResponseTimeLine (summaryLines (calculateThreadStatistics ts)) =
     (case first_response ts of
        None \<Rightarrow> []
      | Some (c, r) \<Rightarrow> [''- **First Response Time**: '' @ responseTimeText c r]) \<and>
   (first_response ts \<noteq> None \<longleftrightarrow>
     (\<exists>pre c mid r post. ts = pre @ c # mid @ r # post \<and> countsAsCustomer c \<and> countsAsReply r)) \<and>
   (0 \<le> d \<longrightarrow> responseTimeText t (t + d) = latency_spec (nat (d div 60000)))"
  using summary_entry first_response_order responseTimeText_latency by blast

theorem first_response_entry_witness:
  "filter isResponseTimeLine
     (summaryLines (calculateThreadStatistics [ex_customer_thread, ex_reply_thread])) =
     [''- **First Response Time**: -1 minutes''] \<and>
   first_response [ex_customer_thread, ex_reply_thread] \<noteq> None \<and>
   responseTimeText 0 90000000 = ''1 day 1 hour'' \<and>
   responseTimeText 0 3660000 = ''1 hour 1 minute'' \<and>
   responseTimeText 0 120000 = ''2 minutes''"
proof -
  let ?ts = "[ex_customer_thread, ex_reply_thread]"
  note t = first_response_entry [where ts = ?ts]
  have A: "filter isResponseTimeLine (summaryLines (calculateThreadStatistics ?ts)) =
     [''- **First Response Time**: -1 minutes'']"
    using t by (simp add: ex_first_response ex_responseTimeText)
  have "?ts = [] @ ex_customer_thread # [] @ ex_reply_thread # [] \<and>
      countsAsCustomer ex_customer_thread \<and> countsAsReply ex_reply_thread"
    by (simp add: countsAsCustomer_def countsAsReply_def isNote_def isCustomerThread_def
        ex_customer_thread_def ex_reply_thread_def)
  then have "\<exists>pre c mid r post. ?ts = pre @ c # mid @ r # post \<and> countsAsCustomer c \<and> countsAsReply r"
    by blast
  with first_response_entry [where ts = ?ts] have B: "first_response ?ts \<noteq> None" by blast
  have l: "latency_spec 1500 = ''1 day 1 hour''" "latency_spec 61 = ''1 hour 1 minute''"
    "latency_spec 2 = ''2 minutes''"
    by (simp_all add: latency_spec_def plural_nat_def show_ev)
  have C: "responseTimeText 0 90000000 = ''1 day 1 hour''"
    using first_response_entry [where d = 90000000 and t = 0] l by simp
  have D: "responseTimeText 0 3660000 = ''1 hour 1 minute''"
    using first_response_entry [where d = 3660000 and t = 0] l by simp
  have E: "responseTimeText 0 120000 = ''2 minutes''"
    using first_response_entry [where d = 120000 and t = 0] l by simp
  from A B C D E show ?thesis by blast
qed

section \<open>The OAuth manager: valid tokens\<close>


lemma load_save: "loadTokens (saveTokens w t) = Some t"
  by (simp add: loadTokens_def saveTokens_def json_of_tokens_def TokenSchema_parse_def
      z_string_def z_number_def)

lemma parse_Some:
  assumes "TokenSchema_parse data = Some t"
  shows "\<exists>kvs. data = JObj kvs \<and>
     map_of kvs ''access_token'' = Some (JStr (access_token t)) \<and>
     map_of kvs ''refresh_token'' = Some (JStr (refresh_token t)) \<and>
     map_of kvs ''token_type'' = Some (JStr (token_type t)) \<and>
     map_of kvs ''expires_in'' = Some (JNum (expires_in t)) \<and>
     map_of kvs ''expires_at'' = Some (JNum (expires_at t))"
  using assms
  by (auto simp: TokenSchema_parse_def z_string_def z_number_def
      split: json.splits option.splits)

lemma parse_missing:
  assumes "f \<in> set tokenFields" "map_of kvs f = None"
  shows "TokenSchema_parse (JObj kvs) = None"
  using assms
  by (auto simp: TokenSchema_parse_def z_string_def z_number_def tokenFields_def
      split: option.splits)

lemma load_ticks [simp]: "loadTokens (w\<lparr>ticks := n\<rparr>) = loadTokens w"
  by (simp add: loadTokens_def)

lemma refresh_outcome:
  assumes "loadTokens w = Some t"
  shows "refreshAccessToken cfg w =
     (if refresh_token t = [] then (Inl NoRefreshToken, w)
      else (case endpoint w (refresh_form cfg t) of
              Unreachable \<Rightarrow> (Inl FetchFailed, w\<lparr>posts := posts w @ [refresh_form cfg t]\<rparr>)
            | Rejected msg \<Rightarrow> (Inl (RefreshFailed msg), w\<lparr>posts := posts w @ [refresh_form cfg t]\<rparr>)
            | Accepted g \<Rightarrow>
                (Inr (tokenData_of g (clock w (ticks w))),
                 saveTokens (w\<lparr>posts := posts w @ [refresh_form cfg t], ticks := Suc (ticks w)\<rparr>)
                   (tokenData_of g (clock w (ticks w))))))"
  using assms
  by (simp add: refreshAccessToken_def post_token_def Date_now_def Let_def
      split: token_reply.splits)

lemma exchange_outcome:
  "exchangeCodeForToken cfg w code =
     (case endpoint w (exchange_form cfg code) of
        Unreachable \<Rightarrow> (Inl FetchFailed, w\<lparr>posts := posts w @ [exchange_form cfg code]\<rparr>)
      | Rejected msg \<Rightarrow> (Inl (ExchangeFailed msg), w\<lparr>posts := posts w @ [exchange_form cfg code]\<rparr>)
      | Accepted g \<Rightarrow>
          (Inr (tokenData_of g (clock w (ticks w))),
           saveTokens (w\<lparr>posts := posts w @ [exchange_form cfg code], ticks := Suc (ticks w)\<rparr>)
             (tokenData_of g (clock w (ticks w)))))"
  by (simp add: exchangeCodeForToken_def post_token_def Date_now_def Let_def
      split: token_reply.splits)

lemma getValidToken_outcome:
  assumes "loadTokens w = Some t"
  shows "getValidToken cfg w =
     (if expires_at t - 60000 \<le> clock w (ticks w)
      then (case refreshAccessToken cfg (w\<lparr>ticks := Suc (ticks w)\<rparr>) of
              (Inl e, w2) \<Rightarrow> (Inl e, w2)
            | (Inr refreshed, w2) \<Rightarrow> (Inr (access_token refreshed), w2))
      else (Inr (access_token t), w\<lparr>ticks := Suc (ticks w)\<rparr>))"
  using assms by (simp add: getValidToken_def Date_now_def)

lemma tokenData_of_simps [simp]:
  "access_token (tokenData_of g n) = grant_access_token g"
  "refresh_token (tokenData_of g n) = grant_refresh_token g"
  "expires_in (tokenData_of g n) = grant_expires_in g"
  "expires_at (tokenData_of g n) = n + grant_expires_in g * 1000"
  by (simp_all add: tokenData_of_def)

text \<open>
  C3, amended. For every persisted token record, getValidToken returns the cached access
  token without any network call when now < expires_at - 60000 ms. When now >= expires_at -
  60000 ms and the record's refresh token is not empty, it performs exactly one refresh call;
  if the token endpoint accepts the call, it persists the refreshed record and returns the
  new access token; if the endpoint rejects the call, it fails with the refresh error and
  leaves the token file as it was. With an empty refresh token it fails without any network
  call.
\<close>

theorem getValidToken_cases:
  assumes "loadTokens w = Some t"
  shows
  "(clock w (ticks w) < expires_at t - 60000 \<longrightarrow>
      fst (getValidToken cfg w) = Inr (access_token t) \<and>
      posts (snd (getValidToken cfg w)) = posts w \<and>
      token_file (snd (getValidToken cfg w)) = token_file w) \<and>
   (expires_at t - 60000 \<le> clock w (ticks w) \<and> refresh_token t \<noteq> [] \<and>
    endpoint w (refresh_form cfg t) = Accepted g \<longrightarrow>
      fst (getValidToken cfg w) = Inr (grant_access_token g) \<and>
      posts (snd (getValidToken cfg w)) = posts w @ [refresh_form cfg t] \<and>
      token_file (snd (getValidToken cfg w)) =
        Holds (json_of_tokens (tokenData_of g (clock w (Suc (ticks w))))) \<and>
      loadTokens (snd (getValidToken cfg w)) = Some (tokenData_of g (clock w (Suc (ticks w))))) \<and>
   (expires_at t - 60000 \<le> clock w (ticks w) \<and> refresh_token t \<noteq> [] \<and>
    endpoint w (refresh_form cfg t) = Rejected msg \<longrightarrow>
      fst (getValidToken cfg w) = Inl (RefreshFailed msg) \<and>
      posts (snd (getValidToken cfg w)) = posts w @ [refresh_form cfg t] \<and>
      token_file (snd (getValidToken cfg w)) = token_file w) \<and>
   (expires_at t - 60000 \<le> clock w (ticks w) \<and> refresh_token t = [] \<longrightarrow>
      fst (getValidToken cfg w) = Inl NoRefreshToken \<and>
      posts (snd (getValidToken cfg w)) = posts w \<and>
      token_file (snd (getValidToken cfg w)) = token_file w)"
proof -
  let ?w1 = "w\<lparr>ticks := Suc (ticks w)\<rparr>"
  have l1: "loadTokens ?w1 = Some t" using assms by simp
  note g = getValidToken_outcome [OF assms, of cfg]
  note r = refresh_outcome [OF l1, of cfg]
  have A: "clock w (ticks w) < expires_at t - 60000 \<longrightarrow>
      fst (getValidToken cfg w) = Inr (access_token t) \<and>
      posts (snd (getValidToken cfg w)) = posts w \<and>
      token_file (snd (getValidToken cfg w)) = token_file w"
    by (simp add: g)
  have B: "expires_at t - 60000 \<le> clock w (ticks w) \<and> refresh_token t \<noteq> [] \<and>
    endpoint w (refresh_form cfg t) = Accepted g \<longrightarrow>
      fst (getValidToken cfg w) = Inr (grant_access_token g) \<and>
      posts (snd (getValidToken cfg w)) = posts w @ [refresh_form cfg t] \<and>
      token_file (snd (getValidToken cfg w)) =
        Holds (json_of_tokens (tokenData_of g (clock w (Suc (ticks w))))) \<and>
      loadTokens (snd (getValidToken cfg w)) = Some (tokenData_of g (clock w (Suc (ticks w))))"
    by (simp add: g r load_save) (simp add: saveTokens_def)
  have C: "expires_at t - 60000 \<le> clock w (ticks w) \<and> refresh_token t \<noteq> [] \<and>
    endpoint w (refresh_form cfg t) = Rejected msg \<longrightarrow>
      fst (getValidToken cfg w) = Inl (RefreshFailed msg) \<and>
      posts (snd (getValidToken cfg w)) = posts w @ [refresh_form cfg t] \<and>
      token_file (snd (getValidToken cfg w)) = token_file w"
    by (simp add: g r)
  have D: "expires_at t - 60000 \<le> clock w (ticks w) \<and> refresh_token t = [] \<longrightarrow>
      fst (getValidToken cfg w) = Inl NoRefreshToken \<and>
      posts (snd (getValidToken cfg w)) = posts w \<and>
      token_file (snd (getValidToken cfg w)) = token_file w"
    by (simp add: g r)
  from A B C D show ?thesis by blast
qed


lemma parse_json_of: "TokenSchema_parse (json_of_tokens t) = Some t"
  by (simp add: json_of_tokens_def TokenSchema_parse_def z_string_def z_number_def)

lemma ex_world_simps [simp]:
  "token_file (ex_world file reply) = file"
  "clock (ex_world file reply) n = 4950000 + 300 * int n"
  "ticks (ex_world file reply) = 0"
  "endpoint (ex_world file reply) params = reply"
  "posts (ex_world file reply) = []"
  by (simp_all add: ex_world_def)

lemma ex_load [simp]: "loadTokens (ex_world (Holds (json_of_tokens t)) reply) = Some t"
  by (simp add: loadTokens_def parse_json_of)

text \<open>
  C3 as stated fails: with the record expired, a refresh that the endpoint rejects makes
  one call, persists nothing and returns an error; and a record with an empty refresh token
  makes no call at all.
\<close>

theorem getValidToken_refresh_can_fail:
  "loadTokens (ex_world (Holds (json_of_tokens ex_tokens)) (Rejected ''invalid_grant'')) = Some ex_tokens \<and>
   expires_at ex_tokens - 60000 \<le> 4950000 \<and>
   fst (getValidToken ex_config (ex_world (Holds (json_of_tokens ex_tokens)) (Rejected ''invalid_grant''))) =
     Inl (RefreshFailed ''invalid_grant'') \<and>
   token_file (snd (getValidToken ex_config
       (ex_world (Holds (json_of_tokens ex_tokens)) (Rejected ''invalid_grant'')))) =
     Holds (json_of_tokens ex_tokens) \<and>
   fst (getValidToken ex_config
       (ex_world (Holds (json_of_tokens (ex_tokens\<lparr>refresh_token := []\<rparr>))) (Accepted ex_grant))) =
     Inl NoRefreshToken \<and>
   posts (snd (getValidToken ex_config
       (ex_world (Holds (json_of_tokens (ex_tokens\<lparr>refresh_token := []\<rparr>))) (Accepted ex_grant)))) = []"
  by (simp add: getValidToken_outcome refresh_outcome) (simp add: ex_tokens_def)

theorem getValidToken_cases_witness:
  "fst (getValidToken ex_config
       (ex_world (Holds (json_of_tokens (ex_tokens\<lparr>expires_at := 9000000\<rparr>))) Unreachable)) =
     Inr ''old-access'' \<and>
   posts (snd (getValidToken ex_config
       (ex_world (Holds (json_of_tokens (ex_tokens\<lparr>expires_at := 9000000\<rparr>))) Unreachable))) = [] \<and>
   fst (getValidToken ex_config (ex_world (Holds (json_of_tokens ex_tokens)) (Accepted ex_grant))) =
     Inr ''new-access'' \<and>
   posts (snd (getValidToken ex_config (ex_world (Holds (json_of_tokens ex_tokens)) (Accepted ex_grant)))) =
     [refresh_form ex_config ex_tokens] \<and>
   loadTokens (snd (getValidToken ex_config (ex_world (Holds (json_of_tokens ex_tokens)) (Accepted ex_grant)))) =
     Some (tokenData_of ex_grant 4950300) \<and>
   fst (getValidToken ex_config (ex_world (Holds (json_of_tokens ex_tokens)) (Rejected ''revoked''))) =
     Inl (RefreshFailed ''revoked'') \<and>
   fst (getValidToken ex_config
       (ex_world (Holds (json_of_tokens (ex_tokens\<lparr>refresh_token := []\<rparr>))) (Accepted ex_grant))) =
     Inl NoRefreshToken"
proof -
  have A: "fst (getValidToken ex_config
       (ex_world (Holds (json_of_tokens (ex_tokens\<lparr>expires_at := 9000000\<rparr>))) Unreachable)) =
     Inr ''old-access'' \<and>
   posts (snd (getValidToken ex_config
       (ex_world (Holds (json_of_tokens (ex_tokens\<lparr>expires_at := 9000000\<rparr>))) Unreachable))) = []"
    using getValidToken_cases [OF ex_load, of "ex_tokens\<lparr>expires_at := 9000000\<rparr>" Unreachable ex_config]
    by (simp add: ex_tokens_def)
  have B: "fst (getValidToken ex_config (ex_world (Holds (json_of_tokens ex_tokens)) (Accepted ex_grant))) =
     Inr ''new-access'' \<and>
   posts (snd (getValidToken ex_config (ex_world (Holds (json_of_tokens ex_tokens)) (Accepted ex_grant)))) =
     [refresh_form ex_config ex_tokens] \<and>
   loadTokens (snd (getValidToken ex_config (ex_world (Holds (json_of_tokens ex_tokens)) (Accepted ex_grant)))) =
     Some (tokenData_of ex_grant 4950300)"
    using getValidToken_cases [OF ex_load, of ex_tokens "Accepted ex_grant" ex_config ex_grant]
    by (simp add: ex_tokens_def ex_grant_def)
  have C: "fst (getValidToken ex_config (ex_world (Holds (json_of_tokens ex_tokens)) (Rejected ''revoked''))) =
     Inl (RefreshFailed ''revoked'')"
    using getValidToken_cases [OF ex_load, of ex_tokens "Rejected ''revoked''" ex_config _ "''revoked''"]
    by (simp add: ex_tokens_def)
  have D: "fst (getValidToken ex_config
       (ex_world (Holds (json_of_tokens (ex_tokens\<lparr>refresh_token := []\<rparr>))) (Accepted ex_grant))) =
     Inl NoRefreshToken"
    using getValidToken_cases [OF ex_load, of "ex_tokens\<lparr>refresh_token := []\<rparr>" "Accepted ex_grant" ex_config]
    by (simp add: ex_tokens_def)
  from A B C D show ?thesis by blast
qed

section \<open>The token store: what is saved, what is loaded\<close>

lemma getValidToken_file:
  assumes "getValidToken cfg w = (r, w')"
  shows "token_file w' = token_file w \<or>
     (\<exists>t. token_file w' = Holds (json_of_tokens t) \<and>
          expires_at t = clock w (Suc (ticks w)) + expires_in t * 1000)"
proof (cases "loadTokens w")
  case None
  with assms show ?thesis by (simp add: getValidToken_def)
next
  case (Some t)
  let ?w1 = "w\<lparr>ticks := Suc (ticks w)\<rparr>"
  have l1: "loadTokens ?w1 = Some t" using Some by simp
  show ?thesis
  proof (cases "endpoint w (refresh_form cfg t)")
    case Unreachable
    with assms show ?thesis
      by (auto simp: getValidToken_outcome [OF Some] refresh_outcome [OF l1] split: if_splits)
  next
    case (Rejected msg)
    with assms show ?thesis
      by (auto simp: getValidToken_outcome [OF Some] refresh_outcome [OF l1] split: if_splits)
  next
    case (Accepted g)
    with assms show ?thesis
      by (auto simp: getValidToken_outcome [OF Some] refresh_outcome [OF l1] saveTokens_def
          split: if_splits)
  qed
qed

lemma getValidToken_ignores_expires_in:
  "fst (getValidToken cfg (saveTokens w (t\<lparr>expires_in := e\<rparr>))) =
   fst (getValidToken cfg (saveTokens w t))"
proof -
  let ?wa = "saveTokens w (t\<lparr>expires_in := e\<rparr>)" and ?wb = "saveTokens w t"
  have la: "loadTokens ?wa = Some (t\<lparr>expires_in := e\<rparr>)" and lb: "loadTokens ?wb = Some t"
    by (rule load_save)+
  have la1: "loadTokens (?wa\<lparr>ticks := Suc (ticks ?wa)\<rparr>) = Some (t\<lparr>expires_in := e\<rparr>)"
    and lb1: "loadTokens (?wb\<lparr>ticks := Suc (ticks ?wb)\<rparr>) = Some t"
    using la lb by simp_all
  have f: "refresh_form cfg (t\<lparr>expires_in := e\<rparr>) = refresh_form cfg t"
    by (simp add: refresh_form_def)
  have s: "clock ?wa = clock w" "clock ?wb = clock w" "ticks ?wa = ticks w" "ticks ?wb = ticks w"
    "endpoint ?wa = endpoint w" "endpoint ?wb = endpoint w"
    by (simp_all add: saveTokens_def)
  show ?thesis
    unfolding getValidToken_outcome [OF la] getValidToken_outcome [OF lb]
      refresh_outcome [OF la1] refresh_outcome [OF lb1]
    by (simp add: f s split: token_reply.splits)
qed

text \<open>
  C7. Every token record persisted by the store, whether created by the exchange of the
  authorization code or by a refresh, satisfies expires_at = issued_at + expires_in * 1000,
  where issued_at is the clock reading taken for the save; and the relative expires_in of
  the server is never used on its own as an absolute expiry.
\<close>

theorem saved_expiry:
  "(exchangeCodeForToken cfg w code = (Inr t, w') \<longrightarrow>
      token_file w' = Holds (json_of_tokens t) \<and> loadTokens w' = Some t \<and>
      expires_at t = clock w (ticks w) + expires_in t * 1000) \<and>
   (refreshAccessToken cfg w = (Inr t, w') \<longrightarrow>
      token_file w' = Holds (json_of_tokens t) \<and> loadTokens w' = Some t \<and>
      expires_at t = clock w (ticks w) + expires_in t * 1000) \<and>
   (exchangeCodeForToken cfg w code = (Inl e, w') \<longrightarrow> token_file w' = token_file w) \<and>
   (refreshAccessToken cfg w = (Inl e, w') \<longrightarrow> token_file w' = token_file w) \<and>
   (getValidToken cfg w = (r, w') \<longrightarrow>
      token_file w' = token_file w \<or>
      (\<exists>t. token_file w' = Holds (json_of_tokens t) \<and>
           expires_at t = clock w (Suc (ticks w)) + expires_in t * 1000)) \<and>
   fst (getValidToken cfg (saveTokens w (t\<lparr>expires_in := n\<rparr>))) =
     fst (getValidToken cfg (saveTokens w t))"
proof -
  have A: "exchangeCodeForToken cfg w code = (Inr t, w') \<longrightarrow>
      token_file w' = Holds (json_of_tokens t) \<and> loadTokens w' = Some t \<and>
      expires_at t = clock w (ticks w) + expires_in t * 1000"
    by (auto simp: exchange_outcome load_save split: token_reply.splits)
       (simp add: saveTokens_def)
  have B: "refreshAccessToken cfg w = (Inr t, w') \<longrightarrow>
      token_file w' = Holds (json_of_tokens t) \<and> loadTokens w' = Some t \<and>
      expires_at t = clock w (ticks w) + expires_in t * 1000"
  proof (cases "loadTokens w")
    case None
    then show ?thesis by (simp add: refreshAccessToken_def)
  next
    case (Some t0)
    show ?thesis
      by (auto simp: refresh_outcome [OF Some] load_save split: token_reply.splits if_splits)
         (simp add: saveTokens_def)
  qed
  have C: "exchangeCodeForToken cfg w code = (Inl e, w') \<longrightarrow> token_file w' = token_file w"
    by (auto simp: exchange_outcome split: token_reply.splits)
  have D: "refreshAccessToken cfg w = (Inl e, w') \<longrightarrow> token_file w' = token_file w"
  proof (cases "loadTokens w")
    case None
    then show ?thesis by (auto simp: refreshAccessToken_def)
  next
    case (Some t0)
    show ?thesis
      by (auto simp: refresh_outcome [OF Some] split: token_reply.splits if_splits)
  qed
  from A B C D getValidToken_file getValidToken_ignores_expires_in show ?thesis by blast
qed

theorem saved_expiry_witness:
  "loadTokens (snd (exchangeCodeForToken ex_config (ex_world Missing (Accepted ex_grant)) ''code'')) =
     Some (tokenData_of ex_grant 4950000) \<and>
   expires_at (tokenData_of ex_grant 4950000) = 12150000 \<and>
   loadTokens (snd (refreshAccessToken ex_config (ex_world (Holds (json_of_tokens ex_tokens)) (Accepted ex_grant)))) =
     Some (tokenData_of ex_grant 4950000) \<and>
   token_file (snd (exchangeCodeForToken ex_config (ex_world Missing (Rejected ''no'')) ''code'')) = Missing \<and>
   token_file (snd (refreshAccessToken ex_config (ex_world Missing (Accepted ex_grant)))) = Missing"
proof -
  obtain t w' where x: "exchangeCodeForToken ex_config (ex_world Missing (Accepted ex_grant)) ''code'' = (Inr t, w')"
    and t: "t = tokenData_of ex_grant 4950000"
    by (simp add: exchange_outcome)
  have A: "loadTokens (snd (exchangeCodeForToken ex_config (ex_world Missing (Accepted ex_grant)) ''code'')) =
     Some (tokenData_of ex_grant 4950000) \<and> expires_at (tokenData_of ex_grant 4950000) = 12150000"
    using saved_expiry [where cfg = ex_config and w = "ex_world Missing (Accepted ex_grant)"
        and code = "''code''" and t = t and w' = w'] x t
    by (simp add: ex_grant_def)
  obtain t2 w2 where r: "refreshAccessToken ex_config (ex_world (Holds (json_of_tokens ex_tokens)) (Accepted ex_grant)) = (Inr t2, w2)"
    and t2: "t2 = tokenData_of ex_grant 4950000"
    by (simp add: refresh_outcome [OF ex_load] ex_tokens_def)
  have B: "loadTokens (snd (refreshAccessToken ex_config (ex_world (Holds (json_of_tokens ex_tokens)) (Accepted ex_grant)))) =
     Some (tokenData_of ex_grant 4950000)"
    using saved_expiry [where cfg = ex_config and w = "ex_world (Holds (json_of_tokens ex_tokens)) (Accepted ex_grant)"
        and t = t2 and w' = w2] r t2
    by simp
  obtain w3 where x3: "exchangeCodeForToken ex_config (ex_world Missing (Rejected ''no'')) ''code'' = (Inl (ExchangeFailed ''no''), w3)"
    by (simp add: exchange_outcome)
  have C: "token_file (snd (exchangeCodeForToken ex_config (ex_world Missing (Rejected ''no'')) ''code'')) = Missing"
    using saved_expiry [where cfg = ex_config and w = "ex_world Missing (Rejected ''no'')"
        and code = "''code''" and e = "ExchangeFailed ''no''" and w' = w3] x3
    by simp
  obtain w4 where x4: "refreshAccessToken ex_config (ex_world Missing (Accepted ex_grant)) = (Inl NoRefreshToken, w4)"
    by (simp add: refreshAccessToken_def loadTokens_def)
  have D: "token_file (snd (refreshAccessToken ex_config (ex_world Missing (Accepted ex_grant)))) = Missing"
    using saved_expiry [where cfg = ex_config and w = "ex_world Missing (Accepted ex_grant)"
        and e = NoRefreshToken and w' = w4] x4
    by simp
  from A B C D show ?thesis by blast
qed

text \<open>
  C10. Loading the persisted token record is total and validated: if the token file is
  missing, cannot be read, is not JSON, or lacks any of the five fields of a token record,
  the load returns null, and getValidToken then fails with the error of no tokens; and a
  record that the load returns has all five fields, with their values and types as in the
  file.
\<close>

theorem loadTokens_validated:
  "(token_file w = Missing \<or> token_file w = Unreadable \<or> token_file w = Malformed \<longrightarrow>
      loadTokens w = None) \<and>
   (token_file w = Holds (JObj kvs) \<and> f \<in> set tokenFields \<and> map_of kvs f = None \<longrightarrow>
      loadTokens w = None) \<and>
   (loadTokens w = None \<longrightarrow> getValidToken cfg w = (Inl NoTokensFound, w)) \<and>
   (loadTokens w = Some t \<longrightarrow>
      (\<exists>kvs. token_file w = Holds (JObj kvs) \<and>
         map_of kvs ''access_token'' = Some (JStr (access_token t)) \<and>
         map_of kvs ''refresh_token'' = Some (JStr (refresh_token t)) \<and>
         map_of kvs ''token_type'' = Some (JStr (token_type t)) \<and>
         map_of kvs ''expires_in'' = Some (JNum (expires_in t)) \<and>
         map_of kvs ''expires_at'' = Some (JNum (expires_at t))))"
proof -
  have A: "token_file w = Missing \<or> token_file w = Unreadable \<or> token_file w = Malformed \<longrightarrow>
      loadTokens w = None"
    by (auto simp: loadTokens_def)
  have B: "token_file w = Holds (JObj kvs) \<and> f \<in> set tokenFields \<and> map_of kvs f = None \<longrightarrow>
      loadTokens w = None"
    using parse_missing by (auto simp: loadTokens_def)
  have C: "loadTokens w = None \<longrightarrow> getValidToken cfg w = (Inl NoTokensFound, w)"
    by (simp add: getValidToken_def)
  have D: "loadTokens w = Some t \<longrightarrow>
      (\<exists>kvs. token_file w = Holds (JObj kvs) \<and>
         map_of kvs ''access_token'' = Some (JStr (access_token t)) \<and>
         map_of kvs ''refresh_token'' = Some (JStr (refresh_token t)) \<and>
         map_of kvs ''token_type'' = Some (JStr (token_type t)) \<and>
         map_of kvs ''expires_in'' = Some (JNum (expires_in t)) \<and>
         map_of kvs ''expires_at'' = Some (JNum (expires_at t)))"
  proof
    assume l: "loadTokens w = Some t"
    then obtain data where h: "token_file w = Holds data" and p: "TokenSchema_parse data = Some t"
      by (auto simp: loadTokens_def split: token_file.splits)
    from parse_Some [OF p] h show "\<exists>kvs. token_file w = Holds (JObj kvs) \<and>
         map_of kvs ''access_token'' = Some (JStr (access_token t)) \<and>
         map_of kvs ''refresh_token'' = Some (JStr (refresh_token t)) \<and>
         map_of kvs ''token_type'' = Some (JStr (token_type t)) \<and>
         map_of kvs ''expires_in'' = Some (JNum (expires_in t)) \<and>
         map_of kvs ''expires_at'' = Some (JNum (expires_at t))" by auto
  qed
  from A B C D show ?thesis by blast
qed

theorem loadTokens_validated_witness:
  "loadTokens (ex_world Missing Unreachable) = None \<and>
   loadTokens (ex_world Malformed Unreachable) = None \<and>
   loadTokens (ex_world (Holds (JObj [(''access_token'', JStr ''a''), (''refresh_token'', JStr ''r''),
       (''token_type'', JStr ''bearer''), (''expires_in'', JNum 7200)])) Unreachable) = None \<and>
   getValidToken ex_config (ex_world Missing Unreachable) =
     (Inl NoTokensFound, ex_world Missing Unreachable) \<and>
   map_of [(''access_token'', JStr ''old-access''), (''refresh_token'', JStr ''old-refresh''),
       (''token_type'', JStr ''bearer''), (''expires_in'', JNum 7200), (''expires_at'', JNum 5000000)]
     ''expires_at'' = Some (JNum (expires_at ex_tokens))"
proof -
  have A: "loadTokens (ex_world Missing Unreachable) = None"
    using loadTokens_validated [where w = "ex_world Missing Unreachable"] by simp
  have B: "loadTokens (ex_world Malformed Unreachable) = None"
    using loadTokens_validated [where w = "ex_world Malformed Unreachable"] by simp
  let ?kvs = "[(''access_token'', JStr ''a''), (''refresh_token'', JStr ''r''),
       (''token_type'', JStr ''bearer''), (''expires_in'', JNum 7200)]"
  have "''expires_at'' \<in> set tokenFields \<and> map_of ?kvs ''expires_at'' = None"
    by (simp add: tokenFields_def)
  then have C: "loadTokens (ex_world (Holds (JObj ?kvs)) Unreachable) = None"
    using loadTokens_validated [where w = "ex_world (Holds (JObj ?kvs)) Unreachable"
        and kvs = ?kvs and f = "''expires_at''"] by simp
  have D: "getValidToken ex_config (ex_world Missing Unreachable) =
     (Inl NoTokensFound, ex_world Missing Unreachable)"
    using loadTokens_validated [where w = "ex_world Missing Unreachable" and cfg = ex_config] A
    by blast
  have l: "loadTokens (ex_world (Holds (json_of_tokens ex_tokens)) Unreachable) = Some ex_tokens"
    by simp
  from loadTokens_validated [where w = "ex_world (Holds (json_of_tokens ex_tokens)) Unreachable"
      and t = ex_tokens] l
  obtain kvs where "Holds (json_of_tokens ex_tokens) = Holds (JObj kvs)"
    and "map_of kvs ''expires_at'' = Some (JNum (expires_at ex_tokens))"
    by auto
  then have E: "map_of [(''access_token'', JStr ''old-access''), (''refresh_token'', JStr ''old-refresh''),
       (''token_type'', JStr ''bearer''), (''expires_in'', JNum 7200), (''expires_at'', JNum 5000000)]
     ''expires_at'' = Some (JNum (expires_at ex_tokens))"
    by (simp add: json_of_tokens_def ex_tokens_def)
  from A B C D E show ?thesis by blast
qed

section \<open>extractConversationId: bare identifiers, links, failure\<close>

lemma search_from_Some:
  "search_from m st s = Some g \<Longrightarrow> \<exists>st' p t. s = p @ t \<and> m st' t = Some g"
proof (induction s arbitrary: st)
  case Nil
  then show ?case by auto
next
  case (Cons c cs)
  show ?case
  proof (cases "m st (c # cs)")
    case None
    with Cons.prems have "search_from m False cs = Some g" by simp
    from Cons.IH [OF this] obtain st' p t where "cs = p @ t" "m st' t = Some g" by blast
    then have "c # cs = (c # p) @ t \<and> m st' t = Some g" by simp
    then show ?thesis by blast
  next
    case (Some a)
    with Cons.prems have "m st (c # cs) = Some g" by simp
    then have "c # cs = [] @ (c # cs) \<and> m st (c # cs) = Some g" by simp
    then show ?thesis by blast
  qed
qed

lemma digits_after_Some:
  assumes "digits_after lit t = Some g"
  shows "prefix lit t \<and> g = takeWhile isDigit (drop (length lit) t) \<and> g \<noteq> []"
  using assms by (auto simp: digits_after_def lit_prefix_is_prefix Let_def split: if_splits)

lemma digits_after_digits:
  "digits_after lit t = Some g \<Longrightarrow> g \<noteq> [] \<and> list_all isDigit g"
  using digits_after_Some [of lit t g] by (auto simp: list_all_iff dest: set_takeWhileD)

lemma re_bare_id_digits:
  "re_bare_id st t = Some g \<Longrightarrow> g \<noteq> [] \<and> list_all isDigit g"
  by (auto simp: re_bare_id_def Let_def list_all_iff split: if_splits dest: set_takeWhileD)

lemma extract_digits:
  assumes "extractConversationId link = Inr d"
  shows "d \<noteq> [] \<and> list_all isDigit d"
proof -
  from assms have "match_first re_conversation link = Some d \<or>
      match_first re_conversations link = Some d \<or> match_first re_bare_id link = Some d"
    by (simp add: extractConversationId_def split: option.splits)
  then consider
      "match_first re_conversation link = Some d"
    | "match_first re_conversations link = Some d"
    | "match_first re_bare_id link = Some d"
    by blast
  then show ?thesis
  proof cases
    case 1
    from search_from_Some [OF 1 [unfolded match_first_def]]
    obtain st t where "re_conversation st t = Some d" by blast
    then show ?thesis unfolding re_conversation_def by (rule digits_after_digits)
  next
    case 2
    from search_from_Some [OF 2 [unfolded match_first_def]]
    obtain st t where "re_conversations st t = Some d" by blast
    then show ?thesis unfolding re_conversations_def by (rule digits_after_digits)
  next
    case 3
    from search_from_Some [OF 3 [unfolded match_first_def]]
    obtain st t where "re_bare_id st t = Some d" by blast
    then show ?thesis by (rule re_bare_id_digits)
  qed
qed

lemma search_has_id:
  "search_from (\<lambda>st. digits_after lit) st s = None \<longleftrightarrow> \<not> has_id_after lit s"
proof
  assume n: "search_from (\<lambda>st. digits_after lit) st s = None"
  show "\<not> has_id_after lit s"
  proof
    assume "has_id_after lit s"
    then obtain p d r where s: "s = p @ lit @ d # r" and d: "isDigit d"
      unfolding has_id_after_def by blast
    have "search_from (\<lambda>st. digits_after lit) st (p @ lit @ d # r) \<noteq> None" for st
    proof (induction p arbitrary: st)
      case Nil
      have "digits_after lit (lit @ d # r) \<noteq> None"
        using d by (simp add: digits_after_def lit_prefix_is_prefix Let_def)
      then show ?case by (cases "lit @ d # r") auto
    next
      case (Cons x p)
      then show ?case by (auto split: option.splits)
    qed
    with n s show False by blast
  qed
next
  assume h: "\<not> has_id_after lit s"
  show "search_from (\<lambda>st. digits_after lit) st s = None"
  proof (rule ccontr)
    assume "search_from (\<lambda>st. digits_after lit) st s \<noteq> None"
    then obtain g where "search_from (\<lambda>st. digits_after lit) st s = Some g" by auto
    from search_from_Some [OF this] obtain p t where s: "s = p @ t" and m: "digits_after lit t = Some g"
      by blast
    from digits_after_Some [OF m] obtain u where t: "t = lit @ u" and g: "takeWhile isDigit u \<noteq> []"
      by (auto simp: prefix_def)
    from g obtain d r where "u = d # r" "isDigit d" by (cases u) (auto split: if_splits)
    with s t have "has_id_after lit s" unfolding has_id_after_def by blast
    with h show False by blast
  qed
qed

lemma search_first:
  assumes "ds \<noteq> []" "list_all isDigit ds" "rest = [] \<or> \<not> isDigit (hd rest)"
    and "\<not> has_id_after lit (pre @ lit)"
  shows "search_from (\<lambda>st. digits_after lit) st (pre @ lit @ ds @ rest) = Some ds"
  using assms(4)
proof (induction pre arbitrary: st)
  case Nil
  have tw: "takeWhile isDigit (ds @ rest) = ds"
    using assms(2,3) by (cases rest) (auto simp: list_all_iff takeWhile_append2 [where ys="_ # _"])
  have "digits_after lit (lit @ ds @ rest) = Some ds"
    using tw assms(1) by (simp add: digits_after_def lit_prefix_is_prefix Let_def)
  then show ?case using assms(1) by (cases "lit @ ds @ rest") auto
next
  case (Cons x pre)
  let ?s = "(x # pre) @ lit @ ds @ rest"
  have none: "digits_after lit ?s = None"
  proof (rule ccontr)
    assume "digits_after lit ?s \<noteq> None"
    then obtain g where "digits_after lit ?s = Some g" by auto
    from digits_after_Some [OF this] obtain u where u: "?s = lit @ u" and g: "takeWhile isDigit u \<noteq> []"
      by (auto simp: prefix_def)
    from g obtain d r where dr: "u = d # r" "isDigit d" by (cases u) (auto split: if_splits)
    have "take (Suc (length lit)) ?s = lit @ [d]" using u dr by simp
    moreover have "take (Suc (length lit)) ?s = take (Suc (length lit)) ((x # pre) @ lit)"
      by simp
    ultimately have "take (Suc (length lit)) ((x # pre) @ lit) = lit @ [d]" by simp
    then have "(x # pre) @ lit = [] @ lit @ d # drop (Suc (length lit)) ((x # pre) @ lit)"
      by (metis append_Nil append_take_drop_id append_Cons append_assoc)
    with dr(2) have "has_id_after lit ((x # pre) @ lit)" unfolding has_id_after_def by blast
    with Cons.prems show False by blast
  qed
  have "\<not> has_id_after lit (pre @ lit)"
  proof
    assume "has_id_after lit (pre @ lit)"
    then obtain p d r where "pre @ lit = p @ lit @ d # r" "isDigit d"
      unfolding has_id_after_def by blast
    then have "(x # pre) @ lit = (x # p) @ lit @ d # r \<and> isDigit d" by simp
    then have "has_id_after lit ((x # pre) @ lit)" unfolding has_id_after_def by blast
    with Cons.prems show False by blast
  qed
  from Cons.IH [OF this] none show ?case by simp
qed

lemma bare_False: "search_from re_bare_id False s = None"
  by (induction s) (auto simp: re_bare_id_def Let_def)

lemma bare_search: "match_first re_bare_id s = (if s \<noteq> [] \<and> list_all isDigit s then Some s else None)"
proof (cases s)
  case Nil
  then show ?thesis by (simp add: match_first_def re_bare_id_def)
next
  case (Cons c cs)
  show ?thesis
  proof (cases "list_all isDigit s")
    case True
    then have tw: "takeWhile isDigit s = s" by (simp add: list_all_iff takeWhile_eq_all_conv)
    have "re_bare_id True s = Some s" unfolding re_bare_id_def Let_def tw using Cons by simp
    with True Cons show ?thesis by (auto simp: match_first_def)
  next
    case False
    then have "takeWhile isDigit s \<noteq> s" by (simp add: list_all_iff takeWhile_eq_all_conv)
    then have "drop (length (takeWhile isDigit s)) s \<noteq> []"
      by (metis append_Nil2 takeWhile_dropWhile_id dropWhile_eq_drop)
    then have "re_bare_id True s = None" by (simp add: re_bare_id_def Let_def del: takeWhile.simps)
    with False Cons show ?thesis by (simp add: match_first_def bare_False del: takeWhile.simps)
  qed
qed

lemma digits_no_id:
  assumes "list_all isDigit s" "lit \<noteq> []" "\<not> isDigit (hd lit)"
  shows "\<not> has_id_after lit s"
proof
  assume "has_id_after lit s"
  then obtain p d r where "s = p @ lit @ d # r" unfolding has_id_after_def by blast
  then have "hd lit \<in> set s" using assms(2) by (cases lit) auto
  with assms(1,3) show False by (auto simp: list_all_iff)
qed

lemmas extract_ev = extractConversationId_def match_first_def re_conversation_def
  re_conversations_def re_bare_id_def digits_after_def isDigit_def

lemma extract_example:
  "extractConversationId ''https://host/conversation/123456789/thread/1'' = Inr ''123456789''"
  by (simp add: extract_ev)

lemma extract_order:
  "extractConversationId ''https://host/conversations/55/conversation/66'' = Inr ''66''"
  by (simp add: extract_ev)

text \<open>
  C6. extractConversationId returns a bare numeric input unchanged (so it is idempotent on
  its outputs); it returns 123456789 for https://host/conversation/123456789/thread/1; it
  extracts the identifier from a link containing conversation/<id> or conversations/<id>,
  trying the patterns in this order, the first match winning; and it fails with the error
  naming the link exactly when no pattern matches.
\<close>

theorem extractConversationId_patterns:
  "(ds \<noteq> [] \<and> list_all isDigit ds \<longrightarrow> extractConversationId ds = Inr ds) \<and>
   (extractConversationId link = Inr d \<longrightarrow> extractConversationId d = Inr d) \<and>
   extractConversationId ''https://host/conversation/123456789/thread/1'' = Inr ''123456789'' \<and>
   (first_id_after ''conversation/'' link ds \<longrightarrow> extractConversationId link = Inr ds) \<and>
   (\<not> has_id_after ''conversation/'' link \<and> first_id_after ''conversations/'' link ds \<longrightarrow>
      extractConversationId link = Inr ds) \<and>
   extractConversationId ''https://host/conversations/55/conversation/66'' = Inr ''66'' \<and>
   (extractConversationId link = Inl e \<longleftrightarrow>
      e = CouldNotExtractId link \<and> \<not> has_id_after ''conversation/'' link \<and>
      \<not> has_id_after ''conversations/'' link \<and> \<not> (link \<noteq> [] \<and> list_all isDigit link))"
proof -
  have m1: "match_first re_conversation s = None \<longleftrightarrow> \<not> has_id_after ''conversation/'' s" for s
    unfolding match_first_def re_conversation_def by (rule search_has_id)
  have m2: "match_first re_conversations s = None \<longleftrightarrow> \<not> has_id_after ''conversations/'' s" for s
    unfolding match_first_def re_conversations_def by (rule search_has_id)
  have bare: "extractConversationId s = Inr s" if "s \<noteq> []" "list_all isDigit s" for s
  proof -
    have "\<not> has_id_after ''conversation/'' s" "\<not> has_id_after ''conversations/'' s"
      using that(2) by (rule digits_no_id; simp add: isDigit_def)+
    with m1 m2 have "match_first re_conversation s = None" "match_first re_conversations s = None"
      by blast+
    with that show ?thesis by (simp add: extractConversationId_def bare_search)
  qed
  have A: "ds \<noteq> [] \<and> list_all isDigit ds \<longrightarrow> extractConversationId ds = Inr ds"
    using bare by blast
  have B: "extractConversationId link = Inr d \<longrightarrow> extractConversationId d = Inr d"
    using extract_digits bare by blast
  have D: "first_id_after ''conversation/'' link ds \<longrightarrow> extractConversationId link = Inr ds"
  proof
    assume "first_id_after ''conversation/'' link ds"
    then obtain pre rest where "link = pre @ ''conversation/'' @ ds @ rest" "ds \<noteq> []"
      "list_all isDigit ds" "rest = [] \<or> \<not> isDigit (hd rest)"
      "\<not> has_id_after ''conversation/'' (pre @ ''conversation/'')"
      unfolding first_id_after_def by blast
    then have "match_first re_conversation link = Some ds"
      unfolding match_first_def re_conversation_def using search_first by blast
    then show "extractConversationId link = Inr ds" by (simp add: extractConversationId_def)
  qed
  have E: "\<not> has_id_after ''conversation/'' link \<and> first_id_after ''conversations/'' link ds \<longrightarrow>
      extractConversationId link = Inr ds"
  proof
    assume a: "\<not> has_id_after ''conversation/'' link \<and> first_id_after ''conversations/'' link ds"
    then obtain pre rest where "link = pre @ ''conversations/'' @ ds @ rest" "ds \<noteq> []"
      "list_all isDigit ds" "rest = [] \<or> \<not> isDigit (hd rest)"
      "\<not> has_id_after ''conversations/'' (pre @ ''conversations/'')"
      unfolding first_id_after_def by blast
    then have "match_first re_conversations link = Some ds"
      unfolding match_first_def re_conversations_def using search_first by blast
    moreover from a m1 have "match_first re_conversation link = None" by blast
    ultimately show "extractConversationId link = Inr ds" by (simp add: extractConversationId_def)
  qed
  have G: "extractConversationId link = Inl e \<longleftrightarrow>
      e = CouldNotExtractId link \<and> \<not> has_id_after ''conversation/'' link \<and>
      \<not> has_id_after ''conversations/'' link \<and> \<not> (link \<noteq> [] \<and> list_all isDigit link)"
    using m1 [of link] m2 [of link]
    by (auto simp: extractConversationId_def bare_search split: option.splits)
  from A B extract_example D E extract_order G show ?thesis by blast
qed


lemma no_id_eval:
  "search_from (\<lambda>st. digits_after lit) True s = None \<Longrightarrow> \<not> has_id_after lit s"
  using search_has_id by blast

theorem extractConversationId_patterns_witness:
  "extractConversationId ''42'' = Inr ''42'' \<and>
   extractConversationId ''123456789'' = Inr ''123456789'' \<and>
   extractConversationId ''a/conversation/7/x'' = Inr ''7'' \<and>
   extractConversationId ''a/conversations/8'' = Inr ''8'' \<and>
   extractConversationId ''abc'' = Inl (CouldNotExtractId ''abc'')"
proof -
  have d42: "''42'' \<noteq> [] \<and> list_all isDigit ''42''" by (simp add: isDigit_def)
  have A: "extractConversationId ''42'' = Inr ''42''"
    using extractConversationId_patterns [where ds = "''42''"] d42 by blast
  have ex: "extractConversationId ''https://host/conversation/123456789/thread/1'' = Inr ''123456789''"
    using extractConversationId_patterns by blast
  have B: "extractConversationId ''123456789'' = Inr ''123456789''"
    using extractConversationId_patterns
      [where link = "''https://host/conversation/123456789/thread/1''" and d = "''123456789''"] ex
    by blast
  have "\<not> has_id_after ''conversation/'' (''a/'' @ ''conversation/'')"
    by (rule no_id_eval) (simp add: digits_after_def isDigit_def)
  moreover have "''a/conversation/7/x'' = ''a/'' @ ''conversation/'' @ ''7'' @ ''/x''" by simp
  moreover have "''7'' \<noteq> [] \<and> list_all isDigit ''7'' \<and> \<not> isDigit (hd ''/x'')"
    by (simp add: isDigit_def)
  ultimately have f1: "first_id_after ''conversation/'' ''a/conversation/7/x'' ''7''"
    unfolding first_id_after_def by blast
  have D: "extractConversationId ''a/conversation/7/x'' = Inr ''7''"
    using extractConversationId_patterns [where link = "''a/conversation/7/x''" and ds = "''7''"] f1
    by blast
  have n1: "\<not> has_id_after ''conversation/'' ''a/conversations/8''"
    by (rule no_id_eval) (simp add: digits_after_def isDigit_def)
  have "\<not> has_id_after ''conversations/'' (''a/'' @ ''conversations/'')"
    by (rule no_id_eval) (simp add: digits_after_def isDigit_def)
  moreover have "''a/conversations/8'' = ''a/'' @ ''conversations/'' @ ''8'' @ []" by simp
  moreover have "''8'' \<noteq> [] \<and> list_all isDigit ''8''" by (simp add: isDigit_def)
  ultimately have f2: "first_id_after ''conversations/'' ''a/conversations/8'' ''8''"
    unfolding first_id_after_def by blast
  have E: "extractConversationId ''a/conversations/8'' = Inr ''8''"
    using extractConversationId_patterns [where link = "''a/conversations/8''" and ds = "''8''"] n1 f2
    by blast
  have "\<not> has_id_after ''conversation/'' ''abc''" "\<not> has_id_after ''conversations/'' ''abc''"
    by (rule no_id_eval, simp add: digits_after_def isDigit_def)+
  moreover have "\<not> (''abc'' \<noteq> [] \<and> list_all isDigit ''abc'')" by (simp add: isDigit_def)
  ultimately have G: "extractConversationId ''abc'' = Inl (CouldNotExtractId ''abc'')"
    using extractConversationId_patterns [where link = "''abc''" and e = "CouldNotExtractId ''abc''"]
    by blast
  from A B D E G show ?thesis by blast
qed

section \<open>sanitizeFilename: the sanitized name\<close>

lemma unsafe_gone: "set (replace_from re_unsafe ''_'' st s) \<inter> set unsafeChars = {}"
  by (induction s arbitrary: st) (auto simp: re_unsafe_def unsafeChars_def)

lemma no_double_sublist: "no_double s \<longleftrightarrow> \<not> sublist ''__'' s"
  by (induction s rule: no_double.induct) (auto simp: sublist_Cons_right)

lemma us2_head:
  "replace_from re_underscores2 ''_'' st s = x # xs \<Longrightarrow> x = CHR ''_'' \<Longrightarrow> \<exists>t. s = CHR ''_'' # t"
  by (cases s) (auto simp: re_underscores2_def Let_def split: option.splits nat.splits if_splits)

lemma us2_no_double: "no_double (replace_from re_underscores2 ''_'' st s)"
proof (induction "length s" arbitrary: s st rule: less_induct)
  case less
  show ?case
  proof (cases s)
    case Nil
    then show ?thesis by (simp add: re_underscores2_def)
  next
    case (Cons c cs)
    let ?us = "\<lambda>c. c = CHR ''_''"
    let ?R = "replace_from re_underscores2 ''_''"
    show ?thesis
    proof (cases "re_underscores2 st (c # cs)")
      case None
      have ih: "no_double (?R False cs)" using less Cons by simp
      have out: "?R st s = c # ?R False cs" using None Cons by simp
      show ?thesis
      proof (cases "?R False cs")
        case Nil
        with out show ?thesis by simp
      next
        case (Cons y ys)
        have "\<not> (c = CHR ''_'' \<and> y = CHR ''_'')"
        proof
          assume a: "c = CHR ''_'' \<and> y = CHR ''_''"
          with Cons us2_head obtain t where "cs = CHR ''_'' # t" by blast
          with a have "2 \<le> length (takeWhile ?us (c # cs))" by simp
          with None show False by (simp add: re_underscores2_def Let_def)
        qed
        with ih Cons out show ?thesis by simp
      qed
    next
      case (Some k)
      then have k: "k = length (takeWhile ?us (c # cs))" "2 \<le> k"
        by (auto simp: re_underscores2_def Let_def split: if_splits)
      from k(2) obtain n where n: "k = Suc n" by (cases k) simp_all
      have "dropWhile ?us (c # cs) = drop k (c # cs)"
        unfolding k(1) by (rule dropWhile_eq_drop)
      then have dr: "drop n cs = dropWhile ?us (c # cs)"
        using n by simp
      have out: "?R st s = CHR ''_'' # ?R False (drop n cs)" using Some n Cons by simp
      have ih: "no_double (?R False (drop n cs))" using less Cons by simp
      show ?thesis
      proof (cases "?R False (drop n cs)")
        case Nil
        with out show ?thesis by simp
      next
        case (Cons y ys)
        have "y \<noteq> CHR ''_''"
        proof
          assume "y = CHR ''_''"
          with Cons us2_head obtain t where "drop n cs = CHR ''_'' # t" by blast
          with dr have e: "dropWhile ?us (c # cs) = CHR ''_'' # t" by simp
          then have "dropWhile ?us (c # cs) \<noteq> []" by simp
          from hd_dropWhile [OF this] show False unfolding e by simp
        qed
        with ih Cons out show ?thesis by simp
      qed
    qed
  qed
qed

lemma edge_False:
  "replace_from re_edge_underscores [] False s = rev (dropWhile (\<lambda>c. c = CHR ''_'') (rev s))"
proof (induction s)
  case Nil
  then show ?case by (simp add: re_edge_underscores_def)
next
  case (Cons c cs)
  let ?us = "\<lambda>c. c = CHR ''_''"
  show ?case
  proof (cases "\<forall>x\<in>set (c # cs). ?us x")
    case True
    then have tw: "takeWhile ?us (c # cs) = c # cs" by (subst takeWhile_eq_all_conv)
    have "re_edge_underscores False (c # cs) = Some (Suc (length cs))"
      unfolding re_edge_underscores_def Let_def tw by simp
    moreover have "dropWhile ?us (rev (c # cs)) = []" using True by (simp del: rev.simps)
    ultimately show ?thesis by (simp add: re_edge_underscores_def)
  next
    case False
    then have "dropWhile ?us (c # cs) \<noteq> []" by (subst dropWhile_eq_Nil_conv)
    then have "drop (length (takeWhile ?us (c # cs))) (c # cs) \<noteq> []"
      by (subst dropWhile_eq_drop [symmetric])
    then have "re_edge_underscores False (c # cs) = None"
      by (simp add: re_edge_underscores_def Let_def del: takeWhile.simps)
    then have "replace_from re_edge_underscores [] False (c # cs) = c # rev (dropWhile ?us (rev cs))"
      using Cons by simp
    moreover have "dropWhile ?us (rev (c # cs)) = dropWhile ?us (rev cs) @ [c]"
      using False by (cases "c = CHR ''_''") (auto simp: dropWhile_append)
    ultimately show ?thesis by simp
  qed
qed

lemma edge_True:
  "replace_from re_edge_underscores [] True s =
   replace_from re_edge_underscores [] False (dropWhile (\<lambda>c. c = CHR ''_'') s)"
proof (cases s)
  case Nil
  then show ?thesis by (simp add: re_edge_underscores_def)
next
  case (Cons c cs)
  show ?thesis
  proof (cases "c = CHR ''_''")
    case True
    have "drop (length (takeWhile (\<lambda>c. c = CHR ''_'') cs)) cs = dropWhile (\<lambda>c. c = CHR ''_'') cs"
      by (simp add: dropWhile_eq_drop)
    with True Cons show ?thesis by (simp add: re_edge_underscores_def Let_def)
  next
    case False
    with Cons show ?thesis by (simp add: re_edge_underscores_def Let_def)
  qed
qed

lemma replaceAll_edge:
  "replaceAll re_edge_underscores [] s =
     rev (dropWhile (\<lambda>c. c = CHR ''_'') (rev (dropWhile (\<lambda>c. c = CHR ''_'') s)))"
  by (simp add: replaceAll_def edge_True edge_False)

lemma strip_last:
  assumes r: "r = rev (dropWhile P (rev t))" and ne: "r \<noteq> []"
  shows "\<not> P (last r)"
proof -
  from r ne have d: "dropWhile P (rev t) \<noteq> []" by simp
  have "last r = hd (dropWhile P (rev t))" unfolding r by (rule last_rev)
  with hd_dropWhile [OF d] show ?thesis by simp
qed

lemma strip_hd:
  assumes "r = rev (dropWhile P (rev (dropWhile P s)))" "r \<noteq> []"
  shows "\<not> P (hd r)"
proof -
  let ?t = "dropWhile P s"
  have tne: "?t \<noteq> []"
  proof
    assume "?t = []"
    with assms show False by simp
  qed
  then have h: "\<not> P (hd ?t)" by (rule hd_dropWhile)
  obtain x xs where t: "?t = x # xs" using tne by (cases ?t) auto
  with h have nx: "\<not> P x" by simp
  then have "dropWhile P (rev xs @ [x]) = dropWhile P (rev xs) @ [x]"
    by (simp add: dropWhile_append)
  with assms t nx show ?thesis by simp
qed

lemma strip_sublist: "sublist (rev (dropWhile P (rev (dropWhile P s)))) s"
proof -
  have "suffix (dropWhile P s) s" by (rule suffix_dropWhile)
  moreover have "suffix (dropWhile P (rev (dropWhile P s))) (rev (dropWhile P s))"
    by (rule suffix_dropWhile)
  then have "prefix (rev (dropWhile P (rev (dropWhile P s)))) (dropWhile P s)"
    by (metis suffix_to_prefix rev_rev_ident)
  ultimately show ?thesis
    by (meson prefix_imp_sublist suffix_imp_sublist sublist_order.order_trans)
qed

lemmas sanitize_ev = sanitizeFilename_def replaceAll_def re_unsafe_def re_spaces_def
  re_underscores2_def re_edge_underscores_def isSpace_def unsafeChars_def

lemma sanitize_example: "sanitizeFilename ''My File: v2?.pdf'' = ''My_File_v2_.pdf''"
  by (simp add: sanitize_ev)

text \<open>
  C8. For every input filename, and in particular for \<open>My File: v2?.pdf\<close>, the sanitized
  filename contains none of the characters \<open>< > : " / \ | ? *\<close>, contains no two
  consecutive underscores, and neither starts nor ends with an underscore.
\<close>

theorem sanitizeFilename_clean:
  "set (sanitizeFilename f) \<inter> set unsafeChars = {} \<and>
   \<not> sublist ''__'' (sanitizeFilename f) \<and>
   \<not> prefix ''_'' (sanitizeFilename f) \<and>
   \<not> suffix ''_'' (sanitizeFilename f) \<and>
   sanitizeFilename ''My File: v2?.pdf'' = ''My_File_v2_.pdf''"
proof -
  let ?s1 = "replaceAll re_unsafe ''_'' f"
  let ?s2 = "replaceAll re_spaces ''_'' ?s1"
  let ?s3 = "replaceAll re_underscores2 ''_'' ?s2"
  let ?us = "\<lambda>c. c = CHR ''_''"
  let ?r = "sanitizeFilename f"
  have r: "?r = rev (dropWhile ?us (rev (dropWhile ?us ?s3)))"
    by (simp add: sanitizeFilename_def replaceAll_edge)
  have sub: "sublist ?r ?s3" unfolding r by (rule strip_sublist)
  have u1: "set ?s1 \<inter> set unsafeChars = {}" unfolding replaceAll_def by (rule unsafe_gone)
  have "set ?s2 \<subseteq> set ?s1 \<union> set ''_''" unfolding replaceAll_def by (rule set_replace_from)
  moreover have "set ?s3 \<subseteq> set ?s2 \<union> set ''_''"
    unfolding replaceAll_def by (rule set_replace_from)
  moreover have "set ?r \<subseteq> set ?s3" using sub by (rule set_mono_sublist)
  ultimately have "set ?r \<subseteq> set ?s1 \<union> {CHR ''_''}" by auto
  moreover have "CHR ''_'' \<notin> set unsafeChars" by (simp add: unsafeChars_def)
  ultimately have A: "set ?r \<inter> set unsafeChars = {}" using u1 by auto
  have "\<not> sublist ''__'' ?s3"
    unfolding replaceAll_def using us2_no_double by (simp add: no_double_sublist)
  then have B: "\<not> sublist ''__'' ?r"
    using sub by (meson sublist_order.order_trans)
  have C: "\<not> prefix ''_'' ?r"
  proof
    assume "prefix ''_'' ?r"
    then obtain t where t: "?r = CHR ''_'' # t" by (auto simp: prefix_def)
    then have "?r \<noteq> []" by simp
    from strip_hd [OF r this] t show False by simp
  qed
  have D: "\<not> suffix ''_'' ?r"
  proof
    assume "suffix ''_'' ?r"
    then obtain t where t: "?r = t @ ''_''" by (auto simp: suffix_def)
    then have "?r \<noteq> []" by simp
    from strip_last [OF r this] t show False by simp
  qed
  from A B C D sanitize_example show ?thesis by blast
qed

theorem sanitizeFilename_clean_witness:
  "set ''My_File_v2_.pdf'' \<inter> set unsafeChars = {} \<and>
   \<not> sublist ''__'' ''My_File_v2_.pdf'' \<and>
   \<not> prefix ''_'' ''My_File_v2_.pdf'' \<and>
   \<not> suffix ''_'' ''My_File_v2_.pdf''"
proof -
  note t = sanitizeFilename_clean [of "''My File: v2?.pdf''"]
  from t have e: "sanitizeFilename ''My File: v2?.pdf'' = ''My_File_v2_.pdf''" by blast
  from t [unfolded e] show ?thesis by blast
qed

section \<open>formatFileSize: units and one decimal place\<close>


lemma loop_stop:
  "\<not> (1024 \<le> sz \<and> unitIndex < 3) \<Longrightarrow> formatFileSize_loop sz unitIndex = (sz, unitIndex)"
  by (subst formatFileSize_loop.simps) (auto simp: units_def numeral_3_eq_3)

lemma loop_go:
  "1024 \<le> sz \<Longrightarrow> unitIndex < 3 \<Longrightarrow>
    formatFileSize_loop sz unitIndex = formatFileSize_loop (sz / 1024) (unitIndex + 1)"
  by (subst formatFileSize_loop.simps) (auto simp: units_def numeral_3_eq_3)

lemma toFixed1_tenths:
  "toFixed1 x = (let n = nat \<lfloor>x * 10 + 1 / 2\<rfloor> in show_nat (n div 10) @ ''.'' @ [digitChar (n mod 10)])"
proof -
  define n where "n = nat \<lfloor>x * 10 + 1 / 2\<rfloor>"
  show ?thesis
  proof (cases "n < 10")
    case True
    then have "show_nat n = [digitChar n]" "show_nat (n div 10) = ''0''"
      by (simp_all add: show_nat_small digitChar_def)
    with True show ?thesis unfolding toFixed1_def Let_def n_def [symmetric] by simp
  next
    case False
    then have s: "show_nat n = show_nat (n div 10) @ [digitChar (n mod 10)]"
      by (simp add: show_nat_big)
    have "length (show_nat (n div 10)) \<noteq> 0" using show_nat_nonempty by simp
    then show ?thesis unfolding toFixed1_def Let_def n_def [symmetric] s by simp
  qed
qed

lemma loop_result:
  "formatFileSize_loop (real b) 0 = (real b / 1024 ^ unitIndex_spec b, unitIndex_spec b)"
proof -
  consider "b < 1024" | "1024 \<le> b" "b < 1024 ^ 2" | "1024 ^ 2 \<le> b" "b < 1024 ^ 3" | "1024 ^ 3 \<le> b"
    by linarith
  then show ?thesis
  proof cases
    case 1
    then show ?thesis by (simp add: loop_stop unitIndex_spec_def)
  next
    case 2
    then have "real b / 1024 < 1024" by simp
    with 2 show ?thesis by (simp add: loop_go loop_stop unitIndex_spec_def)
  next
    case 3
    then have "real b / 1024 / 1024 < 1024" "1024 \<le> real b / 1024" "1024 \<le> b" by simp_all
    with 3 show ?thesis by (simp add: loop_go loop_stop unitIndex_spec_def)
  next
    case 4
    then have "1024 \<le> real b / 1024 / 1024" "1024 \<le> real b / 1024" "1024 \<le> b" by simp_all
    with 4 show ?thesis by (simp add: loop_go loop_stop unitIndex_spec_def)
  qed
qed

lemma tenths_floor:
  "nat \<lfloor>real b / 1024 ^ k * 10 + 1 / 2\<rfloor> = (20 * b + 1024 ^ k) div (2 * 1024 ^ k)"
proof -
  have "real b / 1024 ^ k * 10 + 1 / 2 = real (20 * b + 1024 ^ k) / real (2 * 1024 ^ k)"
    by (simp add: field_simps)
  then have "\<lfloor>real b / 1024 ^ k * 10 + 1 / 2\<rfloor> = int ((20 * b + 1024 ^ k) div (2 * 1024 ^ k))"
    by (simp only: floor_divide_of_nat_eq)
  then show ?thesis by simp
qed

lemma formatFileSize_refines: "formatFileSize b = formatFileSize_spec b"
proof -
  let ?k = "unitIndex_spec b"
  have "formatFileSize b = toFixed1 (real b / 1024 ^ ?k) @ '' '' @ units ! ?k"
    by (simp add: formatFileSize_def loop_result)
  also have "toFixed1 (real b / 1024 ^ ?k) =
      show_nat (tenths_spec b div 10) @ ''.'' @ [digitChar (tenths_spec b mod 10)]"
    unfolding toFixed1_tenths Let_def tenths_floor tenths_spec_def by (rule refl)
  finally show ?thesis by (simp add: formatFileSize_spec_def units_def)
qed

lemmas size_ev = formatFileSize_def toFixed1_def units_def loop_stop loop_go show_ev

lemma formatFileSize_1536: "formatFileSize 1536 = ''1.5 KB''"
  by (simp add: size_ev)

lemma formatFileSize_500: "formatFileSize 500 = ''500.0 B''"
  by (simp add: size_ev)

text \<open>
  C9. formatFileSize renders a byte count in the base-1024 units B, KB, MB, GB with exactly
  one decimal place; in particular formatFileSize(1536) is \<open>1.5 KB\<close> and
  formatFileSize(500) is \<open>500.0 B\<close>.
\<close>

theorem formatFileSize_units:
  "(bytes < 2 ^ 53 \<longrightarrow> formatFileSize bytes = formatFileSize_spec bytes) \<and>
   formatFileSize 1536 = ''1.5 KB'' \<and> formatFileSize 500 = ''500.0 B''"
  using formatFileSize_refines formatFileSize_1536 formatFileSize_500 by blast

theorem formatFileSize_units_witness:
  "(1048575 :: nat) < 2 ^ 53 \<and> formatFileSize 1048575 = ''1024.0 KB''"
proof -
  have h: "(1048575 :: nat) < 2 ^ 53" by simp
  have "formatFileSize_spec 1048575 = ''1024.0 KB''"
    by (simp add: formatFileSize_spec_def tenths_spec_def unitIndex_spec_def show_ev)
  with formatFileSize_units [of 1048575] h show ?thesis by simp
qed

section \<open>downloadConversation: failed downloads\<close>
















end
